theory Spec2Isabelle
  imports Main
begin

section \<open>Strings\<close>

text \<open>
  Source strings are modelled as \<^typ>\<open>string\<close>; a character stands for one code unit
  with code below 256. The white space of the source's \<^verbatim>\<open>\s\<close> and of
  \<^verbatim>\<open>trim\<close> in that range is tab, line feed, vertical tab, form feed, carriage
  return, space and no-break space.
\<close>

definition isWhitespace :: "char \<Rightarrow> bool" where
  "isWhitespace c = ((of_char c :: nat) \<in> {9, 10, 11, 12, 13, 32, 160})"

definition trimStart :: "string \<Rightarrow> string" where
  "trimStart s = dropWhile isWhitespace s"

definition trimEnd :: "string \<Rightarrow> string" where
  "trimEnd s = rev (dropWhile isWhitespace (rev s))"

definition trim :: "string \<Rightarrow> string" where
  "trim s = trimEnd (trimStart s)"

definition startsWith :: "string \<Rightarrow> string \<Rightarrow> bool" where
  "startsWith s p = (take (length p) s = p)"

text \<open>Reading an array at an index: \<^verbatim>\<open>undefined\<close> outside the array.\<close>

definition at :: "'a list \<Rightarrow> int \<Rightarrow> 'a option" where
  "at xs i = (if 0 \<le> i \<and> i < int (length xs) then Some (xs ! nat i) else None)"

section \<open>Data model (parsers/types.ts)\<close>

record SourceLocation =
  start :: int
  end_offset :: int
  startLine :: int
  startColumn :: int
  endLine :: int
  endColumn :: int

datatype TokenRole =
  Role_word | Role_punctuation | Role_comment | Role_pragma
  | Role_string | Role_colon | Role_arrow | Role_unknown

record AbapToken =
  role :: TokenRole
  tokText :: string
  upper :: string
  loc :: SourceLocation
  hasFollowingLineBreak :: bool
  original :: "string option"

record AbapComment =
  cvalue :: string
  inline :: bool
  cloc :: SourceLocation

datatype KeywordCase = Case_upper | Case_lower

record AbapPluginOptions =
  abapKeywordCase :: "KeywordCase option"
  abapSpaceBeforePeriod :: "bool option"
  abapSpaceBeforeCommentSign :: "bool option"
  abapSpaceAfterCommentSign :: "bool option"
  tabWidth :: "int option"

text \<open>
  Tokens are objects that several arrays may share and that are mutated in place, and the
  side tables of the rules are keyed by object identity. A token reference is a number
  and the tokens live in a store.
\<close>

type_synonym tokenRef = nat
type_synonym tokenStore = "tokenRef \<Rightarrow> AbapToken"

section \<open>Comment sign spacing (spaceAroundCommentSignRule.ts)\<close>

definition COMMENT_SIGN :: string where
  "COMMENT_SIGN = [CHR 0x22]"

definition isLetterOrDigit :: "char \<Rightarrow> bool" where
  "isLetterOrDigit c =
     (let n = (of_char c :: nat)
      in (65 \<le> n \<and> n \<le> 90) \<or> (97 \<le> n \<and> n \<le> 122) \<or> (48 \<le> n \<and> n \<le> 57))"

definition formatCommentValue :: "string \<Rightarrow> AbapPluginOptions \<Rightarrow> string" where
  "formatCommentValue rawValue options =
     (if abapSpaceAfterCommentSign options = Some False then rawValue
      else
        let leadingWhitespace = takeWhile isWhitespace rawValue;
            rest = drop (length leadingWhitespace) rawValue
        in if \<not> startsWith rest COMMENT_SIGN then rawValue
           else if length rest \<le> 1 then rawValue
           else
             let nextChar = rest ! 1
             in if \<not> isLetterOrDigit nextChar then rawValue
                else leadingWhitespace @ COMMENT_SIGN @ '' '' @ drop 1 rest)"

definition needsSpaceBeforeCommentSign :: "AbapPluginOptions \<Rightarrow> bool" where
  "needsSpaceBeforeCommentSign options = (abapSpaceBeforeCommentSign options \<noteq> Some False)"

section \<open>Base spacing rule (spaceBeforePeriodRule.ts)\<close>

definition PUNCTUATION_TO_TRIM :: "string set" where
  "PUNCTUATION_TO_TRIM = {''.'', '',''}"

definition needsSpaceBefore ::
  "AbapToken \<Rightarrow> AbapToken option \<Rightarrow> AbapPluginOptions \<Rightarrow> bool" where
  "needsSpaceBefore current previous options =
     (case previous of
        None \<Rightarrow> False
      | Some prev \<Rightarrow>
          if trim (tokText current) = ''('' then False
          else if trim (tokText current) = '')'' then True
          else if role current = Role_punctuation \<and> tokText current \<in> PUNCTUATION_TO_TRIM
            then abapSpaceBeforePeriod options = Some True
          else if role current = Role_comment then needsSpaceBeforeCommentSign options
          else if role current = Role_arrow \<or> tokText current = ''->'' \<or> tokText current = ''=>''
            then False
          else if tokText current = '')'' \<or> tokText current = '']'' \<or> tokText current = '':''
            then False
          else if role current = Role_punctuation then False
          else if tokText current = '','' \<or> tokText current = ''.'' then False
          else if tokText prev = ''('' \<or> tokText prev = ''['' \<or> tokText prev = '':''
                  \<or> tokText prev = ''-'' \<or> tokText prev = ''->'' \<or> tokText prev = ''=>''
            then False
          else if role prev = Role_arrow then False
          else if tokText current = ''='' \<and>
                  (tokText prev = ''+'' \<or> tokText prev = ''-'' \<or> tokText prev = ''*''
                   \<or> tokText prev = ''/'' \<or> tokText prev = ''&&'')
            then False
          else True)"

section \<open>Spaces before a token (printers/abap.ts)\<close>

type_synonym NeedlessSpacesOverrides = "tokenRef \<rightharpoonup> int"

definition computeOriginalSpaces :: "AbapToken \<Rightarrow> AbapToken option \<Rightarrow> int" where
  "computeOriginalSpaces token previous =
     (case previous of
        None \<Rightarrow> 0
      | Some prev \<Rightarrow>
          if endLine (loc prev) \<noteq> startLine (loc token) then 0
          else
            let diff = startColumn (loc token) - endColumn (loc prev) - 1
            in if diff > 0 then diff else 0)"

text \<open>
  \<^verbatim>\<open>activeNeedlessSpaces\<close> is a module variable that is undefined until a program
  has been printed; it is the first argument here.
\<close>

definition getSpacesBeforeToken ::
  "NeedlessSpacesOverrides option \<Rightarrow> tokenStore \<Rightarrow> tokenRef \<Rightarrow> tokenRef option
     \<Rightarrow> AbapPluginOptions \<Rightarrow> int" where
  "getSpacesBeforeToken activeNeedlessSpaces h token previous options =
     (let minSpaces = (if needsSpaceBefore (h token) (map_option h previous) options
                       then 1 else 0 :: int);
          override = (case activeNeedlessSpaces of None \<Rightarrow> None | Some ov \<Rightarrow> ov token)
      in case override of
           Some n \<Rightarrow> n
         | None \<Rightarrow>
             if minSpaces = 0 then 0
             else max (computeOriginalSpaces (h token) (map_option h previous)) minSpaces)"

section \<open>Needless spaces (needlessSpacesRule.ts)\<close>

datatype TokenType =
  COLON | COMMA | PERIOD | ASSIGNMENT_OP | COMPARISON_OP | COMMENT | PRAGMA | LITERAL
  | IDENTIFIER

text \<open>
  \<open>posStartColumn\<close> and \<open>posEndColumn\<close> are the source's \<^verbatim>\<open>startColumn\<close> and
  \<^verbatim>\<open>endColumn\<close> of a \<^verbatim>\<open>TokenPos\<close>; \<open>token\<close> is the reference of the token.
\<close>

record TokenPos =
  token :: tokenRef
  posStartColumn :: int
  posEndColumn :: int
  lineNumber :: int
  commandNumber :: int
  spacesLeft :: int
  isFirstInLine :: bool
  startIndexInLine :: int
  prevEndColumn :: int
  tokenType :: TokenType
  prevTokenType :: "TokenType option"

text \<open>
  The errors that end a function of the embedded code: the \<^verbatim>\<open>TypeError\<close> of reading a
  property of \<^verbatim>\<open>undefined\<close>, and an error raised with \<^verbatim>\<open>throw\<close>.
\<close>

datatype js_error = TypeError | ThrownError

text \<open>The three side tables that \<^verbatim>\<open>processSequence\<close> updates in place.\<close>

record NeedlessState =
  processedTokens :: "tokenRef set"
  overrides :: NeedlessSpacesOverrides
  groupedTokens :: "tokenRef set"

text \<open>The loop of lines 449 to 460: the largest end column of a preceding token on the
  same line, and whether all members start in the column of the first member.\<close>

definition processSequence_scanSpecial :: "TokenPos \<Rightarrow> TokenPos list \<Rightarrow> int \<times> bool" where
  "processSequence_scanSpecial firstTokenPos run =
     foldl (\<lambda>(maxPrevEndColumn, allStartColumnsEqual) testTokenPos.
              (if \<not> isFirstInLine testTokenPos
                 then max maxPrevEndColumn (prevEndColumn testTokenPos)
                 else maxPrevEndColumn,
               if startIndexInLine testTokenPos \<noteq> startIndexInLine firstTokenPos
                 then False else allStartColumnsEqual))
           (0, True) run"

text \<open>The loop of lines 469 to 480. \<^verbatim>\<open>spacesToSpare\<close> starts as positive infinity,
  which is \<open>None\<close> here.\<close>

definition testSpacesToSpare :: "bool \<Rightarrow> int \<Rightarrow> TokenPos \<Rightarrow> int" where
  "testSpacesToSpare isSpecialAlignment maxPrevEndColumn testTokenPos =
     (if isSpecialAlignment then startIndexInLine testTokenPos - maxPrevEndColumn - 1
      else max 0 (spacesLeft testTokenPos) - 1)"

definition scanSpare_step ::
  "bool \<Rightarrow> int \<Rightarrow> int option \<times> bool \<Rightarrow> TokenPos \<Rightarrow> int option \<times> bool" where
  "scanSpare_step isSpecialAlignment maxPrevEndColumn acc testTokenPos =
     (case fst acc of
        None \<Rightarrow> Some (testSpacesToSpare isSpecialAlignment maxPrevEndColumn testTokenPos)
      | Some spacesToSpare \<Rightarrow>
          Some (min spacesToSpare
                  (testSpacesToSpare isSpecialAlignment maxPrevEndColumn testTokenPos)),
      if \<not> isFirstInLine testTokenPos then False else snd acc)"

definition processSequence_scanSpare ::
  "bool \<Rightarrow> int \<Rightarrow> TokenPos list \<Rightarrow> int option \<times> bool" where
  "processSequence_scanSpare isSpecialAlignment maxPrevEndColumn run =
     foldl (scanSpare_step isSpecialAlignment maxPrevEndColumn) (None, True) run"

text \<open>The body of the loop of lines 486 to 504.\<close>

definition processSequence_setOverride ::
  "int \<Rightarrow> NeedlessSpacesOverrides \<Rightarrow> TokenPos \<Rightarrow> NeedlessSpacesOverrides" where
  "processSequence_setOverride spacesToSpare ov tokenPos =
     (if tokenType tokenPos = COMMA \<or> tokenType tokenPos = PERIOD \<or> tokenType tokenPos = COLON
        then ov
      else if isFirstInLine tokenPos then ov
      else if tokenType tokenPos = COMMENT then ov
      else ov(token tokenPos \<mapsto> max 0 (spacesLeft tokenPos - spacesToSpare)))"

text \<open>
  The members of the run are the entries \<open>startIndex\<close> up to \<open>endIndex - 1\<close> of the
  list. Reading an entry beyond the end of the list gives \<^verbatim>\<open>undefined\<close>, whose
  \<^verbatim>\<open>token\<close> cannot be read: a TypeError.
\<close>

definition sequenceMembers :: "TokenPos list \<Rightarrow> nat \<Rightarrow> nat \<Rightarrow> TokenPos list" where
  "sequenceMembers tokenPosList startIndex endIndex =
     take (endIndex - startIndex) (drop startIndex tokenPosList)"

definition processSequence ::
  "TokenPos list \<Rightarrow> nat \<Rightarrow> nat \<Rightarrow> bool \<Rightarrow> NeedlessState \<Rightarrow> js_error + NeedlessState" where
  "processSequence tokenPosList startIndex endIndex isSpecialAlignment st =
     (if int endIndex - int startIndex < 2 then Inr st
      else if length tokenPosList < endIndex then Inl TypeError
      else
        let run = sequenceMembers tokenPosList startIndex endIndex;
            st1 = st\<lparr>groupedTokens := foldl (\<lambda>g tp. insert (token tp) g) (groupedTokens st) run\<rparr>;
            special = (if isSpecialAlignment
                       then processSequence_scanSpecial (tokenPosList ! startIndex) run
                       else (0, True));
            maxPrevEndColumn = fst special;
            allStartColumnsEqual = snd special
        in if isSpecialAlignment \<and> allStartColumnsEqual then Inr st1
           else
             let st2 = (if isSpecialAlignment
                        then st1\<lparr>processedTokens :=
                               foldl (\<lambda>g tp. insert (token tp) g) (processedTokens st1) run\<rparr>
                        else st1);
                 spare = processSequence_scanSpare isSpecialAlignment maxPrevEndColumn run;
                 hasFirstTokensOnly = snd spare
             in case fst spare of
                  None \<Rightarrow> Inr st2
                | Some spacesToSpare \<Rightarrow>
                    if hasFirstTokensOnly \<or> spacesToSpare \<le> 0 then Inr st2
                    else Inr (st2\<lparr>overrides :=
                                foldl (processSequence_setOverride spacesToSpare)
                                  (overrides st2) run\<rparr>))"





section \<open>Statements (parsers/types.ts)\<close>

text \<open>
  The fields of a chain entry carry the prefix \<open>entry\<close>; \<open>sloc\<close> is the location of a
  statement. Token arrays hold references into the store.
\<close>

datatype EntryType = Entry_entry | Entry_comment

record AbapChainEntry =
  entryType :: EntryType
  entryTokens :: "tokenRef list option"
  entryTrailingComment :: "AbapComment option"
  entryComment :: "AbapComment option"

record AbapChain =
  keyword :: tokenRef
  entries :: "AbapChainEntry list"

record AbapStatement =
  kind :: string
  tokens :: "tokenRef list"
  sloc :: SourceLocation
  indentLevel :: int
  leadingComments :: "AbapComment list"
  trailingComment :: "AbapComment option"
  pragmas :: "tokenRef list"
  raw :: string
  chain :: "AbapChain option"
  blankLinesBefore :: "int option"

section \<open>Closing brackets position (closingBracketsPositionRule.ts)\<close>

definition CLOSING_TOKENS :: "string set" where
  "CLOSING_TOKENS = {'')'', '']''}"

definition PERIOD_TEXT :: string where
  "PERIOD_TEXT = ''.''"

definition simplify :: "string \<Rightarrow> string" where
  "simplify t = trim t"

definition shouldAttach :: "AbapToken \<Rightarrow> bool" where
  "shouldAttach previous =
     (if \<not> hasFollowingLineBreak previous then False
      else if role previous = Role_comment then False
      else True)"

definition shouldKeepTogether :: "AbapToken \<Rightarrow> bool" where
  "shouldKeepTogether nxt =
     (if simplify (tokText nxt) = PERIOD_TEXT then True
      else if simplify (tokText nxt) \<in> CLOSING_TOKENS then True
      else if role nxt = Role_pragma then True
      else if role nxt = Role_punctuation then True
      else False)"

text \<open>Writing the break flag of the token behind a reference.\<close>

definition setBreak :: "tokenStore \<Rightarrow> tokenRef \<Rightarrow> bool \<Rightarrow> tokenStore" where
  "setBreak h r b = h(r := (h r)\<lparr>hasFollowingLineBreak := b\<rparr>)"

text \<open>
  One round of the loop of \<^verbatim>\<open>adjustClosingBracketsInTokens\<close>, for an index between 1
  and the last index of the array. The state is the flag \<^verbatim>\<open>changed\<close> and the store.
\<close>

definition adjustClosingBrackets_step ::
  "tokenRef list \<Rightarrow> bool \<times> tokenStore \<Rightarrow> nat \<Rightarrow> bool \<times> tokenStore" where
  "adjustClosingBrackets_step toks acc index =
     (let changed = fst acc; h = snd acc;
          current = toks ! index;
          previous = toks ! (index - 1);
          currentText = simplify (tokText (h current));
          previousText = simplify (tokText (h previous));
          isClosingBracket = (currentText \<in> CLOSING_TOKENS);
          isPeriod = (currentText = PERIOD_TEXT);
          shouldMoveBracket = (isClosingBracket \<and> shouldAttach (h previous));
          shouldMovePeriod =
            (isPeriod \<and> shouldAttach (h previous) \<and> previousText \<in> CLOSING_TOKENS)
      in if \<not> shouldMoveBracket \<and> \<not> shouldMovePeriod then (changed, h)
         else
           let changed1 = (if hasFollowingLineBreak (h previous) then True else changed);
               h1 = (if hasFollowingLineBreak (h previous) then setBreak h previous False else h)
           in if \<not> shouldMoveBracket then (changed1, h1)
              else
                let nxt = (if index + 1 < length toks then Some (toks ! (index + 1)) else None);
                    h2 = (case nxt of
                            None \<Rightarrow> h1
                          | Some n \<Rightarrow>
                              if startLine (loc (h1 n)) = startLine (loc (h1 current))
                                 \<and> \<not> shouldKeepTogether (h1 n)
                              then setBreak h1 current True else h1);
                    h3 = (case nxt of
                            None \<Rightarrow> h2
                          | Some n \<Rightarrow>
                              if simplify (tokText (h2 n)) = PERIOD_TEXT
                                 \<and> hasFollowingLineBreak (h2 current)
                              then setBreak h2 current False else h2)
                in (changed1, h3))"

definition adjustClosingBracketsInTokens ::
  "tokenRef list option \<Rightarrow> tokenStore \<Rightarrow> bool \<times> tokenStore" where
  "adjustClosingBracketsInTokens tokensOpt h =
     (case tokensOpt of
        None \<Rightarrow> (False, h)
      | Some toks \<Rightarrow>
          if length toks < 2 then (False, h)
          else foldl (adjustClosingBrackets_step toks) (False, h) [1..<length toks])"

record CommentParts =
  partsValue :: string
  isPseudo :: bool

definition extractCommentParts :: "AbapComment \<Rightarrow> CommentParts option" where
  "extractCommentParts c =
     (let trimmed = trimStart (cvalue c)
      in if \<not> startsWith trimmed COMMENT_SIGN then None
         else
           let withoutQuote = trimStart (drop 1 trimmed)
           in Some \<lparr>partsValue = trim withoutQuote, isPseudo = startsWith withoutQuote ''#''\<rparr>)"

text \<open>
  \<^verbatim>\<open>forcePeriodLine\<close> walks from the last index down to 1 and stops at the first period
  it meets.
\<close>

fun forcePeriodLine_loop :: "tokenStore \<Rightarrow> tokenRef list \<Rightarrow> nat \<Rightarrow> tokenStore" where
  "forcePeriodLine_loop h toks 0 = h"
| "forcePeriodLine_loop h toks (Suc k) =
     (if simplify (tokText (h (toks ! Suc k))) \<noteq> PERIOD_TEXT then forcePeriodLine_loop h toks k
      else setBreak h (toks ! k) True)"

definition forcePeriodLine :: "tokenStore \<Rightarrow> tokenRef list \<Rightarrow> tokenStore" where
  "forcePeriodLine h toks =
     (if length toks < 2 then h else forcePeriodLine_loop h toks (length toks - 1))"

text \<open>
  The state of the rule: the token store, the statements of the list (a statement is
  identified by its position in the list), and the table \<^verbatim>\<open>postComments\<close>.
\<close>

record RuleState =
  store :: tokenStore
  stmts :: "AbapStatement list"
  postComments :: "nat \<rightharpoonup> AbapComment"

text \<open>One round of the loop of \<^verbatim>\<open>mergeTrailingComments\<close>, for \<open>i + 1 < length\<close>.\<close>

definition mergeTrailingComments_step :: "nat set \<Rightarrow> RuleState \<Rightarrow> nat \<Rightarrow> RuleState" where
  "mergeTrailingComments_step touched st i =
     (let current = stmts st ! i; nxt = stmts st ! (i + 1)
      in if i \<notin> touched then st
         else case trailingComment nxt of
           None \<Rightarrow> st
         | Some nextComment \<Rightarrow>
             if \<not> inline nextComment then st
             else if startLine (cloc nextComment) \<noteq> endLine (sloc current) then st
             else (case extractCommentParts nextComment of
               None \<Rightarrow> st
             | Some nextParts \<Rightarrow>
                 let currentComment = trailingComment current;
                     currentParts = (case currentComment of
                                       None \<Rightarrow> None | Some c \<Rightarrow> extractCommentParts c)
                 in if isPseudo nextParts
                       \<or> (case currentParts of None \<Rightarrow> False | Some cp \<Rightarrow> isPseudo cp)
                    then st\<lparr>postComments := (postComments st)(i \<mapsto> nextComment),
                            store := forcePeriodLine (store st) (tokens current),
                            stmts := (stmts st)[i + 1 := nxt\<lparr>trailingComment := None\<rparr>]\<rparr>
                    else
                      let combinedText =
                            (case currentParts of
                               Some cp \<Rightarrow> partsValue cp @ ''; '' @ partsValue nextParts
                             | None \<Rightarrow> partsValue nextParts);
                          baseComment =
                            (case currentComment of Some c \<Rightarrow> c | None \<Rightarrow> nextComment)
                            \<lparr>cvalue := COMMENT_SIGN @ '' '' @ combinedText\<rparr>
                      in st\<lparr>stmts :=
                              list_update
                                (list_update (stmts st) i
                                   (current\<lparr>trailingComment := Some baseComment\<rparr>))
                                (i + 1) (nxt\<lparr>trailingComment := None\<rparr>)\<rparr>))"

definition mergeTrailingComments :: "nat set \<Rightarrow> RuleState \<Rightarrow> RuleState" where
  "mergeTrailingComments touched st =
     foldl (mergeTrailingComments_step touched) st [0..<length (stmts st) - 1]"

text \<open>The loop over the chain entries of one statement.\<close>

definition adjustChainEntries :: "AbapChainEntry list \<Rightarrow> tokenStore \<Rightarrow> tokenStore" where
  "adjustChainEntries es h =
     foldl (\<lambda>h1 entry. case entryTokens entry of
                          None \<Rightarrow> h1
                        | Some toks \<Rightarrow> snd (adjustClosingBracketsInTokens (Some toks) h1))
           h es"

text \<open>One round of the loop over the statements; the first component is the set
  \<^verbatim>\<open>touchedStatements\<close>.\<close>

definition applyClosingBrackets_step :: "nat set \<times> RuleState \<Rightarrow> nat \<Rightarrow> nat set \<times> RuleState" where
  "applyClosingBrackets_step acc i =
     (let touched = fst acc; st = snd acc;
          statement = stmts st ! i;
          pc = (postComments st)(i := None);
          adjusted = adjustClosingBracketsInTokens (Some (tokens statement)) (store st);
          touched1 = (if fst adjusted then insert i touched else touched);
          h1 = (case chain statement of
                  None \<Rightarrow> snd adjusted
                | Some c \<Rightarrow> adjustChainEntries (entries c) (snd adjusted))
      in (touched1, st\<lparr>store := h1, postComments := pc\<rparr>))"

definition applyClosingBracketsPosition :: "RuleState \<Rightarrow> RuleState" where
  "applyClosingBracketsPosition st =
     (if length (stmts st) = 0 then st
      else
        let r = foldl applyClosingBrackets_step ({}, st) [0..<length (stmts st)]
        in mergeTrailingComments (fst r) (snd r))"

text \<open>The texts of all tokens of all statements in order, white space left out.\<close>

definition tokenTextsOf :: "tokenStore \<Rightarrow> tokenRef list \<Rightarrow> string" where
  "tokenTextsOf h ts = concat (map (\<lambda>r. filter (\<lambda>c. \<not> isWhitespace c) (tokText (h r))) ts)"

definition allTokenTexts :: "tokenStore \<Rightarrow> AbapStatement list \<Rightarrow> string" where
  "allTokenTexts h ss = concat (map (\<lambda>s. tokenTextsOf h (tokens s)) ss)"

text \<open>Two stores hold the same tokens except for the break flags.\<close>

definition sameTokensButBreak :: "tokenStore \<Rightarrow> tokenStore \<Rightarrow> bool" where
  "sameTokensButBreak h h' =
     (\<forall>r. (h' r)\<lparr>hasFollowingLineBreak := False\<rparr> = (h r)\<lparr>hasFollowingLineBreak := False\<rparr>)"

text \<open>Two statement lists hold the same statements except for the trailing comments.\<close>

definition sameStatementsButComment :: "AbapStatement list \<Rightarrow> AbapStatement list \<Rightarrow> bool" where
  "sameStatementsButComment ss ss' =
     (map (\<lambda>s. s\<lparr>trailingComment := None\<rparr>) ss' = map (\<lambda>s. s\<lparr>trailingComment := None\<rparr>) ss)"

section \<open>Indentation (indentRule.ts)\<close>

text \<open>
  The statement nodes come from the external tokenizer. A node is modelled by what the rule
  reads of it: the class of its statement type and, for each of its tokens, the rows of
  its start and end and whether its start is a virtual position. The statement classes
  that the rule names are the constructors; every other class is \<open>Stmt_Other\<close>.
\<close>

datatype StatementKind =
  Stmt_EndIf | Stmt_EndWhile | Stmt_EndLoop | Stmt_EndSelect | Stmt_EndTry | Stmt_EndCase
  | Stmt_EndDo | Stmt_EndFunction | Stmt_EndMethod | Stmt_EndClass | Stmt_EndModule
  | Stmt_EndForm | Stmt_EndInterface | Stmt_EndChain | Stmt_EndAt | Stmt_EndExec
  | Stmt_EndCatch | Stmt_EndTestInjection | Stmt_EndTestSeam
  | Stmt_Else | Stmt_ElseIf | Stmt_Catch | Stmt_Cleanup | Stmt_When | Stmt_WhenType
  | Stmt_WhenOthers
  | Stmt_If | Stmt_While | Stmt_Loop | Stmt_Select | Stmt_SelectLoop | Stmt_Do | Stmt_Try
  | Stmt_Case | Stmt_CaseType | Stmt_ClassDefinition | Stmt_ClassImplementation
  | Stmt_MethodImplementation | Stmt_FunctionModule | Stmt_Module | Stmt_Define | Stmt_Form
  | Stmt_TestSeam | Stmt_TestInjection
  | Stmt_Comment | Stmt_Other

record NodeToken =
  startRow :: int
  endRow :: int
  startIsVirtual :: bool

record StatementNode =
  nodeType :: StatementKind
  nodeTokens :: "NodeToken list"

definition DEDENT_BEFORE :: "StatementKind set" where
  "DEDENT_BEFORE =
     {Stmt_EndIf, Stmt_EndWhile, Stmt_EndLoop, Stmt_EndSelect, Stmt_EndTry, Stmt_EndCase,
      Stmt_EndDo, Stmt_EndFunction, Stmt_EndMethod, Stmt_EndClass, Stmt_EndModule,
      Stmt_EndForm, Stmt_EndInterface, Stmt_EndChain, Stmt_EndAt, Stmt_EndExec,
      Stmt_EndCatch, Stmt_EndTestInjection, Stmt_EndTestSeam}"

definition MIDDLE_KEYWORDS :: "StatementKind set" where
  "MIDDLE_KEYWORDS =
     {Stmt_Else, Stmt_ElseIf, Stmt_Catch, Stmt_Cleanup, Stmt_When, Stmt_WhenType,
      Stmt_WhenOthers}"

definition INDENT_AFTER :: "StatementKind set" where
  "INDENT_AFTER =
     {Stmt_If, Stmt_Else, Stmt_ElseIf, Stmt_While, Stmt_Loop, Stmt_Select, Stmt_SelectLoop,
      Stmt_Do, Stmt_Try, Stmt_Case, Stmt_CaseType, Stmt_Catch, Stmt_Cleanup,
      Stmt_ClassDefinition, Stmt_ClassImplementation, Stmt_MethodImplementation,
      Stmt_FunctionModule, Stmt_Module, Stmt_Define, Stmt_Form, Stmt_TestSeam,
      Stmt_TestInjection}"

definition ALIGN_WITH_NEXT :: "StatementKind set" where
  "ALIGN_WITH_NEXT =
     {Stmt_Else, Stmt_ElseIf, Stmt_Catch, Stmt_Cleanup, Stmt_When, Stmt_WhenType,
      Stmt_WhenOthers}"

definition KEEP_EXISTING_INDENT :: int where
  "KEEP_EXISTING_INDENT = - 1"

definition matches :: "StatementKind \<Rightarrow> StatementKind set \<Rightarrow> bool" where
  "matches ty constructors = (ty \<in> constructors)"

definition isStandaloneComment :: "StatementNode \<Rightarrow> bool" where
  "isStandaloneComment statement = (nodeType statement = Stmt_Comment)"

definition isSelectStatement :: "StatementNode \<Rightarrow> bool" where
  "isSelectStatement statement =
     (nodeType statement = Stmt_Select \<or> nodeType statement = Stmt_SelectLoop)"

text \<open>
  \<^verbatim>\<open>getFirstToken\<close> of a statement node of the tokenizer gives the first token of the
  node and throws an error for a node without tokens.
\<close>

definition getFirstToken :: "StatementNode \<Rightarrow> js_error + NodeToken" where
  "getFirstToken statement =
     (case nodeTokens statement of [] \<Rightarrow> Inl ThrownError | t # _ \<Rightarrow> Inr t)"

definition hasBlankLineAbove :: "StatementNode \<Rightarrow> StatementNode option \<Rightarrow> bool" where
  "hasBlankLineAbove statement previous =
     (case previous of
        None \<Rightarrow> False
      | Some prev \<Rightarrow>
          if nodeTokens prev = [] \<or> nodeTokens statement = [] then False
          else startRow (hd (nodeTokens statement)) - endRow (last (nodeTokens prev)) \<ge> 2)"

text \<open>The cursor loop of \<^verbatim>\<open>findAlignmentTarget\<close>: skip the comments that follow
  without a blank line.\<close>

function findAlignmentTarget_cursor :: "StatementNode list \<Rightarrow> nat \<Rightarrow> nat" where
  "findAlignmentTarget_cursor statements cursor =
     (if cursor < length statements
         \<and> isStandaloneComment (statements ! cursor)
         \<and> \<not> hasBlankLineAbove (statements ! cursor) (at statements (int cursor - 1))
      then findAlignmentTarget_cursor statements (cursor + 1)
      else cursor)"
  by pat_completeness auto
termination
  by (relation "measure (\<lambda>(statements, cursor). length statements - cursor)") auto

declare findAlignmentTarget_cursor.simps [simp del]

record AlignmentTarget =
  targetIndex :: nat
  alignDepth :: int

text \<open>\<^verbatim>\<open>findAlignmentTarget\<close> is called with the index of a statement of the list.\<close>

definition findAlignmentTarget ::
  "StatementNode list \<Rightarrow> nat \<Rightarrow> int \<Rightarrow> AlignmentTarget option" where
  "findAlignmentTarget statements startIndex currentDepth =
     (if currentDepth \<le> 0 then None
      else if \<not> hasBlankLineAbove (statements ! startIndex) (at statements (int startIndex - 1))
        then None
      else
        let cursor = findAlignmentTarget_cursor statements (startIndex + 1)
        in if cursor \<ge> length statements then None
           else if \<not> matches (nodeType (statements ! cursor)) ALIGN_WITH_NEXT then None
           else Some \<lparr>targetIndex = cursor, alignDepth = max (currentDepth - 1) 0\<rparr>)"

text \<open>\<^verbatim>\<open>findSelectBlocks\<close>: the state of its loop is the result set and the stack.\<close>

definition findSelectBlocks_step ::
  "StatementNode list \<Rightarrow> nat set \<times> nat list \<Rightarrow> nat \<Rightarrow> nat set \<times> nat list" where
  "findSelectBlocks_step statements acc index =
     (let result = fst acc; stack = snd acc; statement = statements ! index
      in if isSelectStatement statement then (result, index # stack)
         else if nodeType statement = Stmt_EndSelect
           then (case stack of
                   [] \<Rightarrow> (result, stack)
                 | selectIndex # rest \<Rightarrow> (insert selectIndex result, rest))
         else (result, stack))"

definition findSelectBlocks :: "StatementNode list \<Rightarrow> nat set" where
  "findSelectBlocks statements =
     fst (foldl (findSelectBlocks_step statements) ({}, []) [0..<length statements])"

record IndentState =
  levels :: "int list"
  depth :: int
  activeAlignDepth :: "int option"
  activeAlignTarget :: "nat option"

text \<open>The depth after the dedent of a block terminator or middle keyword.\<close>

definition depthBefore :: "int \<Rightarrow> StatementNode \<Rightarrow> int" where
  "depthBefore d statement =
     (if matches (nodeType statement) DEDENT_BEFORE \<or> matches (nodeType statement) MIDDLE_KEYWORDS
      then max (d - 1) 0 else d)"

definition shouldIndentAfter :: "nat set \<Rightarrow> nat \<Rightarrow> StatementNode \<Rightarrow> bool" where
  "shouldIndentAfter selectBlocks index statement =
     (matches (nodeType statement) INDENT_AFTER
      \<and> (\<not> isSelectStatement statement \<or> index \<in> selectBlocks))"

text \<open>
  One round of the loop of \<^verbatim>\<open>computeIndentationLevels\<close>; \<open>levels\<close> is the array
  \<^verbatim>\<open>result\<close>. An error thrown by \<open>getFirstToken\<close> ends the function.
\<close>

definition computeIndentationLevels_step ::
  "StatementNode list \<Rightarrow> nat set \<Rightarrow> IndentState \<Rightarrow> StatementNode
     \<Rightarrow> js_error + IndentState" where
  "computeIndentationLevels_step statements selectBlocks s statement =
     (let index = length (levels s);
          s1 = (case activeAlignTarget s of
                  Some target \<Rightarrow>
                    if index \<ge> target
                    then s\<lparr>activeAlignTarget := None, activeAlignDepth := None\<rparr> else s
                | None \<Rightarrow> s)
      in case getFirstToken statement of
           Inl e \<Rightarrow> Inl e
         | Inr firstToken \<Rightarrow>
             if startIsVirtual firstToken
             then Inr (s1\<lparr>levels := levels s1 @ [KEEP_EXISTING_INDENT]\<rparr>)
             else
               let d = depthBefore (depth s1) statement;
                   alignment = (if activeAlignDepth s1 = None \<and> isStandaloneComment statement
                                then findAlignmentTarget statements index d else None);
                   s2 = (case alignment of
                           Some a \<Rightarrow> s1\<lparr>activeAlignTarget := Some (targetIndex a),
                                         activeAlignDepth := Some (alignDepth a)\<rparr>
                         | None \<Rightarrow> s1);
                   indentLevel = (case activeAlignDepth s2 of Some a \<Rightarrow> a | None \<Rightarrow> d)
               in Inr (s2\<lparr>levels := levels s2 @ [indentLevel],
                          depth := (if shouldIndentAfter selectBlocks index statement
                                    then d + 1 else d)\<rparr>))"

text \<open>The loop over the statements, from a given state.\<close>

fun computeIndentationLevels_loop ::
  "StatementNode list \<Rightarrow> nat set \<Rightarrow> IndentState \<Rightarrow> StatementNode list
     \<Rightarrow> js_error + IndentState" where
  "computeIndentationLevels_loop statements selectBlocks s [] = Inr s"
| "computeIndentationLevels_loop statements selectBlocks s (statement # rest) =
     (case computeIndentationLevels_step statements selectBlocks s statement of
        Inl e \<Rightarrow> Inl e
      | Inr s1 \<Rightarrow> computeIndentationLevels_loop statements selectBlocks s1 rest)"

definition initialIndentState :: IndentState where
  "initialIndentState =
     \<lparr>levels = [], depth = 0, activeAlignDepth = None, activeAlignTarget = None\<rparr>"

definition computeIndentationLevels :: "StatementNode list \<Rightarrow> js_error + int list" where
  "computeIndentationLevels statements =
     (let selectBlocks = findSelectBlocks statements
      in case computeIndentationLevels_loop statements selectBlocks initialIndentState
                statements of
           Inl e \<Rightarrow> Inl e
         | Inr s \<Rightarrow> Inr (levels s))"

text \<open>The state of the loop of \<^verbatim>\<open>computeIndentationLevels\<close> when it comes to the
  statement with index \<open>k\<close>.\<close>

definition indentStateBefore :: "StatementNode list \<Rightarrow> nat \<Rightarrow> js_error + IndentState" where
  "indentStateBefore statements k =
     computeIndentationLevels_loop statements (findSelectBlocks statements)
       initialIndentState (take k statements)"

section \<open>Keyword case (upperAndLowerCaseRule.ts)\<close>

text \<open>
  \<^verbatim>\<open>toUpperCase\<close> and \<^verbatim>\<open>toLowerCase\<close> are functions of the host language on
  strings. They are not defined here: the functions that call them take them as the
  argument \<open>host\<close>.
\<close>

record HostStrings =
  toUpperCase :: "string \<Rightarrow> string"
  toLowerCase :: "string \<Rightarrow> string"

text \<open>
  The set \<^verbatim>\<open>KEYWORDS\<close> is filled from the keyword table of the external tokenizer; it
  is an argument of \<open>applyKeywordCase\<close>.
\<close>

definition applyKeywordCase ::
  "HostStrings \<Rightarrow> string set \<Rightarrow> AbapToken \<Rightarrow> AbapPluginOptions \<Rightarrow> string" where
  "applyKeywordCase host KEYWORDS tok options =
     (let target = (case abapKeywordCase options of None \<Rightarrow> Case_upper | Some c \<Rightarrow> c)
      in if role tok \<noteq> Role_word
         then (if role tok = Role_pragma
               then (if target = Case_lower then toLowerCase host (tokText tok)
                     else toUpperCase host (tokText tok))
               else tokText tok)
         else if upper tok \<notin> KEYWORDS then tokText tok
         else if target = Case_lower then toLowerCase host (upper tok) else upper tok)"

section \<open>Rendering a statement (printers/abap.ts)\<close>

definition renderToken ::
  "HostStrings \<Rightarrow> string set \<Rightarrow> AbapToken \<Rightarrow> AbapPluginOptions \<Rightarrow> string" where
  "renderToken host KEYWORDS tok options =
     (case role tok of
        Role_word \<Rightarrow> applyKeywordCase host KEYWORDS tok options
      | Role_colon \<Rightarrow> '':''
      | Role_arrow \<Rightarrow> trim (tokText tok)
      | Role_comment \<Rightarrow> formatCommentValue (tokText tok) options
      | _ \<Rightarrow> tokText tok)"

definition appendComment :: "string \<Rightarrow> AbapComment option \<Rightarrow> AbapPluginOptions \<Rightarrow> string" where
  "appendComment line commentOpt options =
     (case commentOpt of
        None \<Rightarrow> line
      | Some c \<Rightarrow>
          let formatted = formatCommentValue (trimStart (cvalue c)) options
          in if \<not> needsSpaceBeforeCommentSign options then line @ formatted
             else if length line = 0 \<or> (line \<noteq> [] \<and> last line = CHR '' '') then line @ formatted
             else line @ '' '' @ formatted)"

text \<open>The variables of the token loop of \<^verbatim>\<open>printStatement\<close>; a line meta is the pair of
  its start line and end line.\<close>

record PrintState =
  psLines :: "string list"
  psLineMetas :: "(int \<times> int) list"
  psCurrentLine :: string
  psPrevious :: "tokenRef option"
  psAtLineStart :: bool
  psCurrentLineStartLine :: "int option"
  psCurrentLineEndLine :: "int option"

definition printStatement_token ::
  "HostStrings \<Rightarrow> NeedlessSpacesOverrides option \<Rightarrow> string set \<Rightarrow> tokenStore
     \<Rightarrow> AbapStatement \<Rightarrow> AbapPluginOptions \<Rightarrow> string \<Rightarrow> PrintState \<Rightarrow> tokenRef
     \<Rightarrow> PrintState" where
  "printStatement_token host active KEYWORDS h statement options indent ps t =
     (let txt = renderToken host KEYWORDS (h t) options
      in if length txt = 0 then ps\<lparr>psPrevious := Some t\<rparr>
         else
           let startL = (case psCurrentLineStartLine ps of
                           None \<Rightarrow> startLine (loc (h t)) | Some l \<Rightarrow> l);
               endL = startLine (loc (h t));
               line1 =
                 (if psAtLineStart ps
                  then
                    let relativeIndent =
                          max 0 (startColumn (loc (h t)) - startColumn (sloc statement))
                    in if relativeIndent > 0
                       then psCurrentLine ps @ replicate (nat relativeIndent) (CHR '' '')
                       else psCurrentLine ps
                  else
                    let spaces = getSpacesBeforeToken active h t (psPrevious ps) options
                    in if spaces > 0
                       then trimEnd (psCurrentLine ps) @ replicate (nat spaces) (CHR '' '')
                       else psCurrentLine ps);
               line2 = line1 @ txt
           in if hasFollowingLineBreak (h t)
              then ps\<lparr>psLines := psLines ps @ [trimEnd line2],
                      psLineMetas := psLineMetas ps @ [(startL, endL)],
                      psCurrentLine := indent,
                      psPrevious := None,
                      psAtLineStart := True,
                      psCurrentLineStartLine := None,
                      psCurrentLineEndLine := None\<rparr>
              else ps\<lparr>psCurrentLine := line2,
                      psPrevious := Some t,
                      psAtLineStart := False,
                      psCurrentLineStartLine := Some startL,
                      psCurrentLineEndLine := Some endL\<rparr>)"

definition startsWithPunctuation :: "string \<Rightarrow> bool" where
  "startsWithPunctuation line =
     (case dropWhile isWhitespace line of
        [] \<Rightarrow> False
      | c # _ \<Rightarrow> c = CHR ''.'' \<or> c = CHR '','')"

text \<open>
  The loop that joins a line beginning with a period or comma to the line before it. The
  index starts at 1 and stays where it is after a join, since the list has become shorter.
\<close>

function mergeLeadingPunctuation ::
  "bool \<Rightarrow> nat \<Rightarrow> string list \<times> (int \<times> int) list \<Rightarrow> string list \<times> (int \<times> int) list" where
  "mergeLeadingPunctuation hasPost i acc =
     (let ls = fst acc; metas = snd acc
      in if \<not> i < length ls then acc
         else if hasPost \<and> i = length ls - 1 then mergeLeadingPunctuation hasPost (i + 1) acc
         else if startsWithPunctuation (ls ! i) \<and> 1 \<le> i
           then
             let merged = trimEnd (ls ! (i - 1)) @ trimStart (ls ! i);
                 ls1 = take (i - 1) ls @ [merged] @ drop (i + 1) ls;
                 startM = (if i - 1 < length metas then fst (metas ! (i - 1))
                           else if i < length metas then fst (metas ! i) else 0);
                 endM = (if i < length metas then snd (metas ! i)
                         else if i - 1 < length metas then snd (metas ! (i - 1)) else 0);
                 metas1 = take (i - 1) metas @ [(startM, endM)] @ drop (i + 1) metas
             in mergeLeadingPunctuation hasPost i (ls1, metas1)
         else mergeLeadingPunctuation hasPost (i + 1) acc)"
  by pat_completeness auto
termination
  by (relation "measure (\<lambda>(hasPost, i, acc). length (fst acc) - i)") auto

declare mergeLeadingPunctuation.simps [simp del]

definition findMetaIndex :: "(int \<times> int) list \<Rightarrow> int \<Rightarrow> nat option" where
  "findMetaIndex metas line =
     (case filter (\<lambda>k. fst (metas ! k) \<le> line \<and> line \<le> snd (metas ! k)) [0..<length metas] of
        [] \<Rightarrow> None
      | k # _ \<Rightarrow> Some k)"

text \<open>
  \<open>printStatement\<close> gives the lines that the statement hands to the line joiner; the
  empty document of a statement without tokens and comment is the empty list. The post
  comment is the one that \<^verbatim>\<open>takePostComment\<close> finds for the statement.
\<close>

definition printStatement ::
  "HostStrings \<Rightarrow> NeedlessSpacesOverrides option \<Rightarrow> string set \<Rightarrow> tokenStore
     \<Rightarrow> AbapComment option \<Rightarrow> AbapStatement \<Rightarrow> AbapPluginOptions \<Rightarrow> string list" where
  "printStatement host active KEYWORDS h postComment statement options =
     (if length (tokens statement) = 0 \<and> trailingComment statement = None then []
      else
        let indentUnit = max 1 (case tabWidth options of None \<Rightarrow> 2 | Some w \<Rightarrow> w);
            baseIndentWidth =
              (if indentLevel statement \<ge> 0 then indentLevel statement * indentUnit
               else max 0 (startColumn (sloc statement)));
            indent = replicate (nat baseIndentWidth) (CHR '' '');
            ps = foldl (printStatement_token host active KEYWORDS h statement options indent)
                   \<lparr>psLines = [], psLineMetas = [], psCurrentLine = indent,
                    psPrevious = None, psAtLineStart = True,
                    psCurrentLineStartLine = None, psCurrentLineEndLine = None\<rparr>
                   (tokens statement);
            flushed =
              (if length (trim (psCurrentLine ps)) > 0
               then (psLines ps @ [trimEnd (psCurrentLine ps)],
                     psLineMetas ps @
                       [(case psCurrentLineStartLine ps of
                           None \<Rightarrow> endLine (sloc statement) | Some l \<Rightarrow> l,
                         case psCurrentLineEndLine ps of
                           None \<Rightarrow> endLine (sloc statement) | Some l \<Rightarrow> l)])
               else if length (psLines ps) = 0
               then ([psCurrentLine ps],
                     [(startLine (sloc statement), startLine (sloc statement))])
               else (psLines ps, psLineMetas ps));
            ls0 = (if length (fst flushed) > 0
                   then butlast (fst flushed) @ [trimEnd (last (fst flushed))]
                   else fst flushed);
            merged = mergeLeadingPunctuation (postComment \<noteq> None) 1 (ls0, snd flushed);
            ls1 = fst merged;
            metas = snd merged;
            ls2 =
              (case trailingComment statement of
                 None \<Rightarrow> ls1
               | Some c \<Rightarrow>
                   (case findMetaIndex metas (startLine (cloc c)) of
                      Some k \<Rightarrow> ls1[k := appendComment (ls1 ! k) (Some c) options]
                    | None \<Rightarrow>
                        if length ls1 > 0
                        then ls1[length ls1 - 1 := appendComment (last ls1) (Some c) options]
                        else ls1 @ [formatCommentValue (trimStart (cvalue c)) options]))
        in case postComment of
             None \<Rightarrow> ls2
           | Some pc \<Rightarrow>
               if length ls2 = 0 then ls2 @ [formatCommentValue (trimStart (cvalue pc)) options]
               else ls2[length ls2 - 1 := appendComment (last ls2) (Some pc) options])"

section \<open>Fallback program (parsers/abap.ts)\<close>

definition LF :: char where
  "LF = CHR 0x0A"

definition CR :: char where
  "CR = CHR 0x0D"

fun normalizeNewlines :: "string \<Rightarrow> string" where
  "normalizeNewlines [] = []"
| "normalizeNewlines [c] = (if c = CR then [LF] else [c])"
| "normalizeNewlines (c # d # ds) =
     (if c = CR \<and> d = LF then LF # normalizeNewlines ds
      else if c = CR then LF # normalizeNewlines (d # ds)
      else c # normalizeNewlines (d # ds))"

text \<open>\<^verbatim>\<open>split("\n")\<close>: the pieces between the line feeds, one more than there are line
  feeds.\<close>

fun splitLines :: "string \<Rightarrow> string list" where
  "splitLines [] = [[]]"
| "splitLines (c # cs) =
     (if c = LF then [] # splitLines cs
      else (case splitLines cs of
              l # ls \<Rightarrow> (c # l) # ls
            | [] \<Rightarrow> [[c]]))"

fun buildLineOffsets_from :: "int \<Rightarrow> string list \<Rightarrow> int list" where
  "buildLineOffsets_from current [] = []"
| "buildLineOffsets_from current (line # rest) =
     (current + int (length line) + 1)
       # buildLineOffsets_from (current + int (length line) + 1) rest"

definition buildLineOffsets :: "string \<Rightarrow> int list" where
  "buildLineOffsets t = 0 # buildLineOffsets_from 0 (splitLines t)"

text \<open>
  A program is its list of statements together with the store of their tokens. In the
  fallback program the token of line \<open>index\<close> has the reference \<open>index\<close>.
\<close>

record AbapProgram =
  filename :: string
  body :: "AbapStatement list"
  programStore :: tokenStore
  ploc :: SourceLocation
  source :: string
  sourceHash :: string

definition fallbackLoc :: "int list \<Rightarrow> string \<Rightarrow> nat \<Rightarrow> SourceLocation" where
  "fallbackLoc lineOffsets line index =
     (let startOffset = (case at lineOffsets (int index) of None \<Rightarrow> 0 | Some off \<Rightarrow> off)
      in \<lparr>start = startOffset, end_offset = startOffset + int (length line),
          startLine = int index + 1, startColumn = 0,
          endLine = int index + 1, endColumn = int (length line)\<rparr>)"

definition fallbackToken :: "HostStrings \<Rightarrow> int list \<Rightarrow> string \<Rightarrow> nat \<Rightarrow> AbapToken" where
  "fallbackToken host lineOffsets line index =
     \<lparr>role = Role_word, tokText = trim line, upper = toUpperCase host (trim line),
      loc = fallbackLoc lineOffsets line index, hasFollowingLineBreak = False,
      original = Some line\<rparr>"

definition fallbackStatement :: "int list \<Rightarrow> string \<Rightarrow> nat \<Rightarrow> AbapStatement" where
  "fallbackStatement lineOffsets line index =
     \<lparr>kind = ''Fallback'',
      tokens = (if trim line = [] then [] else [index]),
      sloc = fallbackLoc lineOffsets line index,
      indentLevel = 0, leadingComments = [], trailingComment = None, pragmas = [],
      raw = line, chain = None, blankLinesBefore = None\<rparr>"

definition buildFallbackAst ::
  "HostStrings \<Rightarrow> string \<Rightarrow> string \<Rightarrow> string \<Rightarrow> int list \<Rightarrow> AbapProgram" where
  "buildFallbackAst host t fname hash lineOffsets =
     (let ls = splitLines t
      in \<lparr>filename = fname,
          body = map (\<lambda>index. fallbackStatement lineOffsets (ls ! index) index) [0..<length ls],
          programStore =
            (\<lambda>index. fallbackToken host lineOffsets
                        (if index < length ls then ls ! index else []) index),
          ploc = \<lparr>start = 0, end_offset = int (length t), startLine = 1, startColumn = 0,
                  endLine = int (length ls), endColumn = int (length (last ls))\<rparr>,
          source = t, sourceHash = hash\<rparr>)"

text \<open>
  What the external tokenizer does with the text is an argument of \<open>parseAbap\<close>: it
  throws, it gives no ABAP object, it gives no ABAP file, or it gives a program.
\<close>

datatype TokenizerOutcome =
  ParseThrows | NoAbapObject | NoAbapFile | Parsed AbapProgram

definition parseAbap ::
  "HostStrings \<Rightarrow> (string \<Rightarrow> TokenizerOutcome) \<Rightarrow> string \<Rightarrow> string \<Rightarrow> string
     \<Rightarrow> AbapProgram" where
  "parseAbap host tokenizer src fname hash =
     (let t = normalizeNewlines src;
          lineOffsets = buildLineOffsets t
      in case tokenizer t of
           Parsed program \<Rightarrow> program
         | _ \<Rightarrow> buildFallbackAst host t fname hash lineOffsets)"

text \<open>A statement with a first token at a real position (not a synthetic one).\<close>

definition positioned :: "StatementNode \<Rightarrow> bool" where
  "positioned statement =
     (case getFirstToken statement of Inl _ \<Rightarrow> False | Inr t \<Rightarrow> \<not> startIsVirtual t)"

text \<open>
  Matching in the words of the specification. Over a stretch of statements a select
  counts 1 and an end of select counts - 1. The end of select at \<open>j\<close> is the matching
  closer of the select at \<open>i\<close> when the statements strictly between them are balanced and
  no end of select among them is left without a select before it, after \<open>i\<close>.
\<close>

definition selectDelta :: "StatementNode \<Rightarrow> int" where
  "selectDelta statement =
     (if isSelectStatement statement then 1
      else if nodeType statement = Stmt_EndSelect then - 1 else 0)"

definition selectBalance :: "StatementNode list \<Rightarrow> nat \<Rightarrow> nat \<Rightarrow> int" where
  "selectBalance statements a b = sum_list (map (\<lambda>k. selectDelta (statements ! k)) [a..<b])"

definition spec_matchingCloser :: "StatementNode list \<Rightarrow> nat \<Rightarrow> nat \<Rightarrow> bool" where
  "spec_matchingCloser statements i j =
     (i < j \<and> j < length statements
      \<and> isSelectStatement (statements ! i) \<and> nodeType (statements ! j) = Stmt_EndSelect
      \<and> selectBalance statements (Suc i) j = 0
      \<and> (\<forall>m\<in>{i<..j}. 0 \<le> selectBalance statements (Suc i) m))"

text \<open>
  The invariants of the two loops of the indentation. The first is about the alignment of
  comments: the two alignment variables are set together, and from the next statement up
  to the alignment target there are only comments. \<open>clearAlignment\<close> is the first step of
  a round of the loop.
\<close>

definition alignInv :: "StatementNode list \<Rightarrow> IndentState \<Rightarrow> bool" where
  "alignInv statements s =
     ((activeAlignDepth s = None \<longleftrightarrow> activeAlignTarget s = None) \<and>
      (\<forall>t. activeAlignTarget s = Some t \<longrightarrow>
         (\<forall>j. length (levels s) \<le> j \<and> j < t \<longrightarrow> isStandaloneComment (statements ! j))))"

definition clearAlignment :: "IndentState \<Rightarrow> IndentState" where
  "clearAlignment s =
     (case activeAlignTarget s of
        Some target \<Rightarrow>
          if length (levels s) \<ge> target
          then s\<lparr>activeAlignTarget := None, activeAlignDepth := None\<rparr> else s
      | None \<Rightarrow> s)"

text \<open>
  The second is about the stack of \<^verbatim>\<open>findSelectBlocks\<close>: before the statement \<open>n\<close>
  the stack holds the selects that are still open, the select at depth \<open>k\<close> of the stack
  has \<open>k\<close> open selects after it, and the result holds the selects that an end of select
  before \<open>n\<close> has closed.
\<close>

definition openAt :: "StatementNode list \<Rightarrow> nat \<Rightarrow> nat \<Rightarrow> bool" where
  "openAt statements n i =
     (i < n \<and> isSelectStatement (statements ! i)
      \<and> (\<forall>m\<in>{i<..n}. 0 \<le> selectBalance statements (Suc i) m))"

definition closedBy :: "StatementNode list \<Rightarrow> nat \<Rightarrow> nat \<Rightarrow> bool" where
  "closedBy statements i j =
     (openAt statements j i \<and> nodeType (statements ! j) = Stmt_EndSelect
      \<and> selectBalance statements (Suc i) j = 0)"

definition selectInv :: "StatementNode list \<Rightarrow> nat \<Rightarrow> nat set \<times> nat list \<Rightarrow> bool" where
  "selectInv statements n acc =
     ((\<forall>i. i \<in> set (snd acc) \<longleftrightarrow> openAt statements n i) \<and>
      (\<forall>k<length (snd acc). selectBalance statements (Suc (snd acc ! k)) n = int k) \<and>
      fst acc = {i. \<exists>j<n. closedBy statements i j})"


text \<open>
  A pseudo-comment in the words of the specification: the text begins with \<^verbatim>\<open>#\<close> right after
  the sign.
\<close>

definition spec_isPseudoComment :: "AbapComment \<Rightarrow> bool" where
  "spec_isPseudoComment c = startsWith (trimStart (cvalue c)) (COMMENT_SIGN @ ''#'')"

section \<open>Concrete inputs\<close>

definition mkLoc :: "int \<Rightarrow> int \<Rightarrow> int \<Rightarrow> SourceLocation" where
  "mkLoc line col endCol =
     \<lparr>start = 0, end_offset = 0, startLine = line, startColumn = col,
      endLine = line, endColumn = endCol\<rparr>"

definition mkToken :: "TokenRole \<Rightarrow> string \<Rightarrow> string \<Rightarrow> SourceLocation \<Rightarrow> bool \<Rightarrow> AbapToken" where
  "mkToken r t u l b =
     \<lparr>role = r, tokText = t, upper = u, loc = l, hasFollowingLineBreak = b, original = None\<rparr>"

definition defaultOptions :: AbapPluginOptions where
  "defaultOptions =
     \<lparr>abapKeywordCase = None, abapSpaceBeforePeriod = None, abapSpaceBeforeCommentSign = None,
      abapSpaceAfterCommentSign = None, tabWidth = None\<rparr>"

text \<open>The two tokens of \<^verbatim>\<open>foo(  )\<close>, brackets in columns 3 and 6 of line 1.\<close>

definition bracketStore :: tokenStore where
  "bracketStore =
     (\<lambda>_. mkToken Role_word ''foo'' ''FOO'' (mkLoc 1 0 3) False)
       (1 := mkToken Role_punctuation ''('' ''('' (mkLoc 1 3 4) False,
        2 := mkToken Role_punctuation '')'' '')'' (mkLoc 1 6 7) False)"

definition mkPos :: "tokenRef \<Rightarrow> int \<Rightarrow> int \<Rightarrow> int \<Rightarrow> bool \<Rightarrow> TokenPos" where
  "mkPos t line col spaces first =
     \<lparr>token = t, posStartColumn = col, posEndColumn = col + 3, lineNumber = line,
      commandNumber = line, spacesLeft = spaces, isFirstInLine = first,
      startIndexInLine = col,
      prevEndColumn = (if first then col - 1 else col - spaces - 1), tokenType = IDENTIFIER,
      prevTokenType = (if first then None else Some IDENTIFIER)\<rparr>"

definition emptyState :: NeedlessState where
  "emptyState = \<lparr>processedTokens = {}, overrides = Map.empty, groupedTokens = {}\<rparr>"

text \<open>Two lines with an identifier in column 7, three spaces after the token before it.\<close>

definition runOfTwo :: "TokenPos list" where
  "runOfTwo = [mkPos 1 1 7 3 False, mkPos 3 2 7 3 False]"

text \<open>Two lines with a comma in column 7, three spaces after the token before it.\<close>

definition runOfCommas :: "TokenPos list" where
  "runOfCommas =
     [(mkPos 1 1 7 3 False)\<lparr>tokenType := COMMA\<rparr>, (mkPos 3 2 7 3 False)\<lparr>tokenType := COMMA\<rparr>]"

text \<open>Three lines with an identifier in column 7, the first of them leading its line.\<close>

definition runWithLeader :: "TokenPos list" where
  "runWithLeader = [mkPos 1 1 7 7 True, mkPos 3 2 7 3 False, mkPos 5 3 7 3 False]"

definition mkComment :: "string \<Rightarrow> int \<Rightarrow> int \<Rightarrow> AbapComment" where
  "mkComment v line col =
     \<lparr>cvalue = v, inline = True, cloc = mkLoc line col (col + int (length v))\<rparr>"

definition mkStatement ::
  "string \<Rightarrow> tokenRef list \<Rightarrow> int \<Rightarrow> int \<Rightarrow> AbapComment option \<Rightarrow> AbapStatement" where
  "mkStatement k toks firstLine lastLine c =
     \<lparr>kind = k, tokens = toks,
      sloc = \<lparr>start = 0, end_offset = 0, startLine = firstLine, startColumn = 0,
              endLine = lastLine, endColumn = 0\<rparr>,
      indentLevel = 0, leadingComments = [], trailingComment = c, pragmas = [], raw = [],
      chain = None, blankLinesBefore = None\<rparr>"

text \<open>
  The tokens of
  \<^verbatim>\<open>foo( a\<close> / \<^verbatim>\<open>).\<close> / \<^verbatim>\<open>bar.\<close>
  on lines 1 to 3; the token \<^verbatim>\<open>a\<close> is followed by a line break.
\<close>

definition callStore :: tokenStore where
  "callStore =
     (\<lambda>_. mkToken Role_word ''foo'' ''FOO'' (mkLoc 1 0 3) False)
       (1 := mkToken Role_punctuation ''('' ''('' (mkLoc 1 3 4) False,
        2 := mkToken Role_word ''a'' ''A'' (mkLoc 1 5 6) True,
        3 := mkToken Role_punctuation '')'' '')'' (mkLoc 2 0 1) False,
        4 := mkToken Role_punctuation ''.'' ''.'' (mkLoc 2 1 2) False,
        5 := mkToken Role_word ''bar'' ''BAR'' (mkLoc 3 0 3) False,
        6 := mkToken Role_punctuation ''.'' ''.'' (mkLoc 3 3 4) False)"

definition callState :: "string \<Rightarrow> string \<Rightarrow> RuleState" where
  "callState firstComment secondComment =
     \<lparr>store = callStore,
      stmts = [mkStatement ''Call'' [0, 1, 2, 3, 4] 1 2 (Some (mkComment firstComment 1 7)),
               mkStatement ''Call'' [5, 6] 3 3 (Some (mkComment secondComment 2 3))],
      postComments = Map.empty\<rparr>"

definition mkNode :: "StatementKind \<Rightarrow> int \<Rightarrow> bool \<Rightarrow> StatementNode" where
  "mkNode k row virtual =
     \<lparr>nodeType = k, nodeTokens = [\<lparr>startRow = row, endRow = row, startIsVirtual = virtual\<rparr>]\<rparr>"

text \<open>A block with a matched and an unmatched select and a synthetic statement.\<close>

definition selectBlockExample :: "StatementNode list" where
  "selectBlockExample =
     [mkNode Stmt_If 1 False, mkNode Stmt_Select 2 False, mkNode Stmt_Other 3 False,
      mkNode Stmt_EndSelect 4 False, mkNode Stmt_Select 5 False, mkNode Stmt_EndIf 6 False,
      mkNode Stmt_If 7 True]"

text \<open>Three lines of a view definition, handed to the formatter as a file that the
  tokenizer gives no ABAP object for.\<close>

definition ddlSource :: string where
  "ddlSource = ''  from t'' @ [LF] @ ''  where'' @ [LF] @ ''  a = 1''"

definition ddlProgram :: "HostStrings \<Rightarrow> AbapProgram" where
  "ddlProgram host = parseAbap host (\<lambda>_. NoAbapObject) ddlSource ''view.ddlsrc'' []"

text \<open>A host whose case functions act on the letters a to z, as those of the host language
  do on a text of such letters.\<close>

definition asciiHost :: HostStrings where
  "asciiHost =
     \<lparr>toUpperCase = map (\<lambda>c. if 97 \<le> (of_char c :: nat) \<and> (of_char c :: nat) \<le> 122
                                then char_of ((of_char c :: nat) - 32) else c),
      toLowerCase = map (\<lambda>c. if 65 \<le> (of_char c :: nat) \<and> (of_char c :: nat) \<le> 90
                                then char_of ((of_char c :: nat) + 32) else c)\<rparr>"

text \<open>A line under construction, after the token \<open>p\<close>, and the statement of
  \<^verbatim>\<open>foo(  )\<close>.\<close>

definition inlineState :: "string \<Rightarrow> tokenRef \<Rightarrow> PrintState" where
  "inlineState line p =
     \<lparr>psLines = [], psLineMetas = [], psCurrentLine = line, psPrevious = Some p,
      psAtLineStart = False, psCurrentLineStartLine = Some 1, psCurrentLineEndLine = Some 1\<rparr>"


definition bracketStatement :: AbapStatement where
  "bracketStatement =
     \<lparr>kind = ''Call'', tokens = [0, 1, 2], sloc = mkLoc 1 0 7,
      indentLevel = 0, leadingComments = [], trailingComment = None, pragmas = [], raw = [],
      chain = None, blankLinesBefore = None\<rparr>"

section \<open>Properties\<close>

lemmas ex_defs = mkLoc_def mkToken_def defaultOptions_def bracketStore_def mkPos_def
  emptyState_def runOfTwo_def runWithLeader_def runOfCommas_def

lemmas str_defs = trim_def trimStart_def trimEnd_def isWhitespace_def

lemma takeWhile_ws_sign:
  "\<not> isWhitespace q \<Longrightarrow> takeWhile isWhitespace (takeWhile isWhitespace v @ q # r)
     = takeWhile isWhitespace v"
  by (induction v) auto

lemma sign_not_whitespace: "\<not> isWhitespace (CHR 0x22)"
  by (simp add: isWhitespace_def)

lemma space_not_alnum: "\<not> isLetterOrDigit (CHR '' '')"
  by (simp add: isLetterOrDigit_def)

text \<open>
  C10. Comment-sign spacing normalization is idempotent: for every comment string and
  every option configuration, applying \<open>formatCommentValue\<close> to its own result gives
  that result again.
\<close>

theorem formatCommentValue_idempotent:
  "formatCommentValue (formatCommentValue v opts) opts = formatCommentValue v opts"
proof (cases "abapSpaceAfterCommentSign opts = Some False")
  case True
  then show ?thesis by (simp add: formatCommentValue_def)
next
  case off: False
  define ws where "ws = takeWhile isWhitespace v"
  define rest where "rest = drop (length ws) v"
  show ?thesis
  proof (cases "startsWith rest COMMENT_SIGN \<and> 1 < length rest \<and> isLetterOrDigit (rest ! 1)")
    case False
    then have "formatCommentValue v opts = v"
      using off by (auto simp: formatCommentValue_def Let_def ws_def rest_def)
    then show ?thesis by simp
  next
    case True
    then obtain c r where rest: "rest = CHR 0x22 # c # r"
      by (cases rest; cases "tl rest") (auto simp: startsWith_def COMMENT_SIGN_def)
    have out: "formatCommentValue v opts = ws @ CHR 0x22 # CHR '' '' # c # r"
      using off True rest
      by (simp add: formatCommentValue_def Let_def ws_def [symmetric] rest_def [symmetric]
          COMMENT_SIGN_def)
    have tw: "takeWhile isWhitespace (ws @ CHR 0x22 # CHR '' '' # c # r) = ws"
      unfolding ws_def by (rule takeWhile_ws_sign [OF sign_not_whitespace])
    have "formatCommentValue (ws @ CHR 0x22 # CHR '' '' # c # r) opts
            = ws @ CHR 0x22 # CHR '' '' # c # r"
      using off space_not_alnum
      by (simp add: formatCommentValue_def Let_def tw startsWith_def COMMENT_SIGN_def)
    then show ?thesis by (simp add: out)
  qed
qed

lemma printStatement_token_inline:
  fixes active :: "NeedlessSpacesOverrides option" and h :: tokenStore and t :: tokenRef
    and ps :: PrintState and opts :: AbapPluginOptions and K :: "string set"
    and host :: HostStrings
    and statement :: AbapStatement and indent :: string
  assumes "\<not> psAtLineStart ps" "renderToken host K (h t) opts \<noteq> []"
  defines "n \<equiv> getSpacesBeforeToken active h t (psPrevious ps) opts"
  defines "line \<equiv> (if n > 0 then trimEnd (psCurrentLine ps) @ replicate (nat n) (CHR '' '')
                     else psCurrentLine ps) @ renderToken host K (h t) opts"
  defines "ps' \<equiv> printStatement_token host active K h statement opts indent ps t"
  shows "(if hasFollowingLineBreak (h t) then psLines ps' = psLines ps @ [trimEnd line]
          else psLines ps' = psLines ps \<and> psCurrentLine ps' = line)"
  using assms(1,2)
  by (simp add: ps'_def line_def n_def printStatement_token_def Let_def)

text \<open>
  C9. With a previous token present and under every option configuration, the base
  spacing rule asks for no space when the trimmed text of the current token is an opening
  parenthesis and for a space when it is a closing parenthesis. So where the override
  table has no entry for the token, the renderer's space count before it is 0 for the
  opening and at least 1 for the closing parenthesis, and the line under construction
  gets the opening parenthesis appended with nothing between, the closing parenthesis
  after at least one space.
\<close>

theorem needsSpaceBefore_parentheses:
  "(trim (tokText current) = ''('' \<longrightarrow> needsSpaceBefore current (Some previous) opts = False) \<and>
   (trim (tokText current) = '')'' \<longrightarrow> needsSpaceBefore current (Some previous) opts = True) \<and>
   ((case active of None \<Rightarrow> None | Some ov \<Rightarrow> ov t) = None \<longrightarrow>
      (trim (tokText (h t)) = ''('' \<longrightarrow> getSpacesBeforeToken active h t (Some p) opts = 0) \<and>
      (trim (tokText (h t)) = '')'' \<longrightarrow> 1 \<le> getSpacesBeforeToken active h t (Some p) opts) \<and>
      (\<not> psAtLineStart ps \<and> psPrevious ps = Some p \<and> \<not> hasFollowingLineBreak (h t)
         \<and> renderToken host K (h t) opts \<noteq> [] \<longrightarrow>
         (trim (tokText (h t)) = ''('' \<longrightarrow>
            psCurrentLine (printStatement_token host active K h statement opts indent ps t)
              = psCurrentLine ps @ renderToken host K (h t) opts) \<and>
         (trim (tokText (h t)) = '')'' \<longrightarrow>
            (\<exists>n\<ge>1. psCurrentLine (printStatement_token host active K h statement opts indent ps t)
              = trimEnd (psCurrentLine ps) @ replicate n (CHR '' '') @ renderToken host K (h t) opts))))"
proof (intro conjI impI)
  show "trim (tokText current) = ''('' \<Longrightarrow> needsSpaceBefore current (Some previous) opts = False"
    by (simp add: needsSpaceBefore_def)
  show "trim (tokText current) = '')'' \<Longrightarrow> needsSpaceBefore current (Some previous) opts = True"
    by (simp add: needsSpaceBefore_def)
next
  assume no: "(case active of None \<Rightarrow> None | Some ov \<Rightarrow> ov t) = None"
  {
    assume "trim (tokText (h t)) = ''(''"
    with no show "getSpacesBeforeToken active h t (Some p) opts = 0"
      by (simp add: needsSpaceBefore_def getSpacesBeforeToken_def Let_def)
  next
    assume "trim (tokText (h t)) = '')''"
    with no show "1 \<le> getSpacesBeforeToken active h t (Some p) opts"
      by (simp add: needsSpaceBefore_def getSpacesBeforeToken_def Let_def)
  }
  assume ctx: "\<not> psAtLineStart ps \<and> psPrevious ps = Some p \<and> \<not> hasFollowingLineBreak (h t)
         \<and> renderToken host K (h t) opts \<noteq> []"
  note inl = printStatement_token_inline [where ps = ps and K = K and h = h and t = t and opts = opts
      and active = active and statement = statement and indent = indent and host = host]
  {
    assume "trim (tokText (h t)) = ''(''"
    with no have "getSpacesBeforeToken active h t (Some p) opts = 0"
      by (simp add: needsSpaceBefore_def getSpacesBeforeToken_def Let_def)
    with inl ctx
    show "psCurrentLine (printStatement_token host active K h statement opts indent ps t)
              = psCurrentLine ps @ renderToken host K (h t) opts"
      by simp
  next
    assume "trim (tokText (h t)) = '')''"
    with no have g: "1 \<le> getSpacesBeforeToken active h t (Some p) opts"
      by (simp add: needsSpaceBefore_def getSpacesBeforeToken_def Let_def)
    with inl ctx
    have "psCurrentLine (printStatement_token host active K h statement opts indent ps t)
              = trimEnd (psCurrentLine ps)
                 @ replicate (nat (getSpacesBeforeToken active h t (Some p) opts)) (CHR '' '')
                 @ renderToken host K (h t) opts"
      by simp
    moreover have "1 \<le> nat (getSpacesBeforeToken active h t (Some p) opts)" using g by simp
    ultimately
    show "\<exists>n\<ge>1. psCurrentLine (printStatement_token host active K h statement opts indent ps t)
              = trimEnd (psCurrentLine ps) @ replicate n (CHR '' '') @ renderToken host K (h t) opts"
      by blast
  }
qed

theorem needsSpaceBefore_parentheses_witness:
  "trim (tokText (bracketStore 1)) = ''('' \<and> trim (tokText (bracketStore 2)) = '')'' \<and>
   needsSpaceBefore (bracketStore 1) (Some (bracketStore 0)) defaultOptions = False \<and>
   needsSpaceBefore (bracketStore 2) (Some (bracketStore 1)) defaultOptions = True \<and>
   getSpacesBeforeToken None bracketStore 1 (Some 0) defaultOptions = 0 \<and>
   1 \<le> getSpacesBeforeToken None bracketStore 2 (Some 1) defaultOptions \<and>
   psCurrentLine (printStatement_token asciiHost None {} bracketStore bracketStatement defaultOptions []
                    (inlineState ''foo'' 0) 1) = ''foo('' \<and>
   psCurrentLine (printStatement_token asciiHost None {} bracketStore bracketStatement defaultOptions []
                    (inlineState ''foo('' 1) 2) = ''foo( )''"
proof -
  have t1: "trim (tokText (bracketStore 1)) = ''(''" and t2: "trim (tokText (bracketStore 2)) = '')''"
    by (simp_all add: ex_defs str_defs)
  have r: "renderToken asciiHost {} (bracketStore 1) defaultOptions = ''(''"
    "renderToken asciiHost {} (bracketStore 2) defaultOptions = '')''"
    by (simp_all add: ex_defs renderToken_def)
  have nb: "\<not> hasFollowingLineBreak (bracketStore 1)"
    by (simp add: ex_defs)
  have g: "getSpacesBeforeToken None bracketStore 2 (Some 1) defaultOptions = 1"
    by (simp add: ex_defs str_defs getSpacesBeforeToken_def needsSpaceBefore_def
        computeOriginalSpaces_def Let_def)
  have l2: "psCurrentLine (printStatement_token asciiHost None {} bracketStore bracketStatement defaultOptions []
                    (inlineState ''foo('' 1) 2) = ''foo( )''"
    by (simp add: printStatement_token_def inlineState_def renderToken_def
        getSpacesBeforeToken_def needsSpaceBefore_def computeOriginalSpaces_def Let_def
        ex_defs str_defs)
  from needsSpaceBefore_parentheses [where current = "bracketStore 1"
      and previous = "bracketStore 0" and opts = defaultOptions and active = None and t = 1
      and h = bracketStore and p = 0 and ps = "inlineState ''foo'' 0" and K = "{}" and host = asciiHost
      and statement = bracketStatement and indent = "[]"] t1 r nb
  have a: "needsSpaceBefore (bracketStore 1) (Some (bracketStore 0)) defaultOptions = False \<and>
      getSpacesBeforeToken None bracketStore 1 (Some 0) defaultOptions = 0 \<and>
      psCurrentLine (printStatement_token asciiHost None {} bracketStore bracketStatement defaultOptions []
                    (inlineState ''foo'' 0) 1) = ''foo(''"
    by (simp add: inlineState_def)
  from needsSpaceBefore_parentheses [where current = "bracketStore 2"
      and previous = "bracketStore 1" and opts = defaultOptions and active = None and t = 2
      and h = bracketStore and p = 1] t2
  have b: "needsSpaceBefore (bracketStore 2) (Some (bracketStore 1)) defaultOptions = True \<and>
      1 \<le> getSpacesBeforeToken None bracketStore 2 (Some 1) defaultOptions"
    by simp
  from a b t1 t2 l2 show ?thesis by simp
qed

subsection \<open>Overrides written by the needless-spaces rule\<close>

















lemma foldl_insert_tokens:
  "foldl (\<lambda>g tp. insert (token tp) g) g0 run = g0 \<union> token ` set run"
  by (induction run arbitrary: g0) auto

lemma processSequence_grouped:
  assumes "2 \<le> int e - int s" "e \<le> length l"
  shows "\<exists>st'. processSequence l s e sp st = Inr st' \<and>
           groupedTokens st' = groupedTokens st \<union> token ` set (sequenceMembers l s e)"
  using assms
  by (auto simp: processSequence_def Let_def foldl_insert_tokens split: option.splits)

text \<open>
  C2 (amended). A run with fewer than 2 members is discarded: \<open>processSequence\<close>
  returns with all three side tables, the override table among them, unchanged. A run of
  2 or more members is not discarded: its members are entered in the table of grouped
  tokens.
\<close>

theorem processSequence_short_run_discarded:
  "(int endIndex - int startIndex < 2 \<longrightarrow>
      processSequence tokenPosList startIndex endIndex isSpecialAlignment st = Inr st) \<and>
   (2 \<le> int endIndex - int startIndex \<and> endIndex \<le> length tokenPosList \<longrightarrow>
      (\<exists>st'. processSequence tokenPosList startIndex endIndex isSpecialAlignment st = Inr st' \<and>
         groupedTokens st' =
           groupedTokens st \<union> token ` set (sequenceMembers tokenPosList startIndex endIndex)))"
  using processSequence_grouped [of endIndex startIndex tokenPosList isSpecialAlignment st]
  by (simp add: processSequence_def)

theorem processSequence_short_run_discarded_witness:
  "int 1 - int 0 < 2 \<and> processSequence runOfTwo 0 1 False emptyState = Inr emptyState \<and>
   2 \<le> int 2 - int 0 \<and> 2 \<le> length runOfTwo \<and>
   groupedTokens (projr (processSequence runOfTwo 0 2 False emptyState)) = {1, 3}"
proof -
  have l: "2 \<le> length runOfTwo" by (simp add: runOfTwo_def)
  have m: "token ` set (sequenceMembers runOfTwo 0 2) = {1, 3}"
    by (simp add: sequenceMembers_def ex_defs)
  from processSequence_short_run_discarded [of 1 0 runOfTwo False emptyState]
  have a: "processSequence runOfTwo 0 1 False emptyState = Inr emptyState" by simp
  from processSequence_short_run_discarded [of 2 0 runOfTwo False emptyState] l m
  have b: "groupedTokens (projr (processSequence runOfTwo 0 2 False emptyState)) = {1, 3}"
    by (auto simp: emptyState_def)
  from a b l show ?thesis by simp
qed

text \<open>A run of exactly two members is processed: both members get an override.\<close>

theorem run_of_two_counterexample:
  "length (sequenceMembers runOfTwo 0 2) < 3 \<and>
   overrides emptyState 1 = None \<and>
   processSequence runOfTwo 0 2 False emptyState
     = Inr \<lparr>processedTokens = {}, overrides = [1 \<mapsto> 1, 3 \<mapsto> 1], groupedTokens = {3, 1}\<rparr>"
  by (simp add: ex_defs processSequence_def sequenceMembers_def
      processSequence_scanSpare_def scanSpare_step_def testSpacesToSpare_def
      processSequence_setOverride_def Let_def)





subsection \<open>Closing brackets position: what the pass can change\<close>

lemma sameTokensButBreak_refl: "sameTokensButBreak h h"
  by (simp add: sameTokensButBreak_def)

lemma sameTokensButBreak_trans:
  "sameTokensButBreak h1 h2 \<Longrightarrow> sameTokensButBreak h2 h3 \<Longrightarrow> sameTokensButBreak h1 h3"
  by (simp add: sameTokensButBreak_def)

lemma sameTokensButBreak_setBreak: "sameTokensButBreak h (setBreak h r b)"
  by (simp add: sameTokensButBreak_def setBreak_def)

lemma sameTokensButBreak_setBreak2:
  "sameTokensButBreak h h1 \<Longrightarrow> sameTokensButBreak h (setBreak h1 r b)"
  by (simp add: sameTokensButBreak_def setBreak_def)

lemma sameTokensButBreak_text:
  assumes "sameTokensButBreak h h'"
  shows "tokText (h' r) = tokText (h r)"
proof -
  from assms have "(h' r)\<lparr>hasFollowingLineBreak := False\<rparr> = (h r)\<lparr>hasFollowingLineBreak := False\<rparr>"
    by (simp add: sameTokensButBreak_def)
  then have "tokText ((h' r)\<lparr>hasFollowingLineBreak := False\<rparr>)
               = tokText ((h r)\<lparr>hasFollowingLineBreak := False\<rparr>)"
    by (rule arg_cong)
  then show ?thesis by simp
qed

lemma adjust_step_frame:
  "sameTokensButBreak h (snd (adjustClosingBrackets_step toks (c, h) i))"
  by (auto simp: adjustClosingBrackets_step_def Let_def sameTokensButBreak_refl
      intro!: sameTokensButBreak_setBreak2 sameTokensButBreak_setBreak split: option.splits)

lemma adjust_foldl_frame:
  "sameTokensButBreak h (snd (foldl (adjustClosingBrackets_step toks) (c, h) is))"
proof (induction "is" arbitrary: c h)
  case Nil
  show ?case by (simp add: sameTokensButBreak_refl)
next
  case (Cons i "is")
  obtain c1 h1 where st: "adjustClosingBrackets_step toks (c, h) i = (c1, h1)"
    by (cases "adjustClosingBrackets_step toks (c, h) i")
  have "sameTokensButBreak h h1" using adjust_step_frame [of h toks c i] st by simp
  moreover have "sameTokensButBreak h1 (snd (foldl (adjustClosingBrackets_step toks) (c1, h1) is))"
    by (rule Cons.IH)
  ultimately show ?case using st by (auto intro: sameTokensButBreak_trans)
qed

lemma adjustClosingBracketsInTokens_frame:
  "sameTokensButBreak h (snd (adjustClosingBracketsInTokens t h))"
  by (auto simp: adjustClosingBracketsInTokens_def sameTokensButBreak_refl adjust_foldl_frame
      split: option.splits)

lemma adjustChainEntries_frame: "sameTokensButBreak h (adjustChainEntries es h)"
  unfolding adjustChainEntries_def
proof (induction es arbitrary: h)
  case Nil
  show ?case by (simp add: sameTokensButBreak_refl)
next
  case (Cons e es)
  let ?h1 = "case entryTokens e of None \<Rightarrow> h
             | Some toks \<Rightarrow> snd (adjustClosingBracketsInTokens (Some toks) h)"
  have "sameTokensButBreak h ?h1"
    by (auto split: option.splits simp: sameTokensButBreak_refl adjustClosingBracketsInTokens_frame)
  from sameTokensButBreak_trans [OF this Cons.IH [of ?h1]] show ?case by simp
qed

lemma forcePeriodLine_loop_frame: "sameTokensButBreak h (forcePeriodLine_loop h toks k)"
  by (induction k) (auto simp: sameTokensButBreak_refl sameTokensButBreak_setBreak)

lemma forcePeriodLine_frame: "sameTokensButBreak h (forcePeriodLine h toks)"
  by (simp add: forcePeriodLine_def sameTokensButBreak_refl forcePeriodLine_loop_frame)

lemma sameStatementsButComment_refl: "sameStatementsButComment ss ss"
  by (simp add: sameStatementsButComment_def)

lemma sameStatementsButComment_trans:
  "sameStatementsButComment a b \<Longrightarrow> sameStatementsButComment b c \<Longrightarrow> sameStatementsButComment a c"
  by (simp add: sameStatementsButComment_def)

lemma sameStatementsButComment_update:
  "sameStatementsButComment ss (ss[i := (ss ! i)\<lparr>trailingComment := c\<rparr>])"
proof (cases "i < length ss")
  case True
  then show ?thesis
    by (simp add: sameStatementsButComment_def map_update list_update_same_conv)
next
  case False
  then show ?thesis by (simp add: sameStatementsButComment_def list_update_beyond)
qed

lemma sameStatementsButComment_update2:
  "sameStatementsButComment ss (ss[i := (ss ! i)\<lparr>trailingComment := c\<rparr>,
      Suc i := (ss ! Suc i)\<lparr>trailingComment := d\<rparr>])"
proof -
  let ?s1 = "ss[i := (ss ! i)\<lparr>trailingComment := c\<rparr>]"
  have "?s1 ! Suc i = ss ! Suc i" by simp
  then have "sameStatementsButComment ?s1 (?s1[Suc i := (ss ! Suc i)\<lparr>trailingComment := d\<rparr>])"
    using sameStatementsButComment_update [of ?s1 "Suc i" d] by simp
  with sameStatementsButComment_update [of ss i c] show ?thesis
    by (rule sameStatementsButComment_trans)
qed

lemma merge_step_frame:
  "sameTokensButBreak (store st) (store (mergeTrailingComments_step touched st i)) \<and>
   sameStatementsButComment (stmts st) (stmts (mergeTrailingComments_step touched st i))"
  by (auto simp: mergeTrailingComments_step_def Let_def sameTokensButBreak_refl
      sameStatementsButComment_refl forcePeriodLine_frame sameStatementsButComment_update
      sameStatementsButComment_update2 split: option.splits)

lemma merge_foldl_frame:
  "sameTokensButBreak (store st) (store (foldl (mergeTrailingComments_step touched) st is)) \<and>
   sameStatementsButComment (stmts st) (stmts (foldl (mergeTrailingComments_step touched) st is))"
proof (induction "is" arbitrary: st)
  case Nil
  show ?case by (simp add: sameTokensButBreak_refl sameStatementsButComment_refl)
next
  case (Cons i "is")
  show ?case
    using merge_step_frame [of st touched i] Cons.IH [of "mergeTrailingComments_step touched st i"]
    by (auto intro: sameTokensButBreak_trans sameStatementsButComment_trans)
qed

lemma apply_step_frame:
  "sameTokensButBreak (store st) (store (snd (applyClosingBrackets_step (t, st) i))) \<and>
   stmts (snd (applyClosingBrackets_step (t, st) i)) = stmts st"
  by (auto simp: applyClosingBrackets_step_def Let_def adjustClosingBracketsInTokens_frame
      split: option.splits
      intro: sameTokensButBreak_trans [OF adjustClosingBracketsInTokens_frame adjustChainEntries_frame])

lemma apply_foldl_frame:
  "sameTokensButBreak (store st) (store (snd (foldl applyClosingBrackets_step (t, st) is))) \<and>
   stmts (snd (foldl applyClosingBrackets_step (t, st) is)) = stmts st"
proof (induction "is" arbitrary: t st)
  case Nil
  show ?case by (simp add: sameTokensButBreak_refl)
next
  case (Cons i "is")
  obtain t1 st1 where s: "applyClosingBrackets_step (t, st) i = (t1, st1)"
    by (cases "applyClosingBrackets_step (t, st) i")
  show ?case
    using apply_step_frame [of st t i] Cons.IH [where t = t1 and st = st1] s
    by (auto intro: sameTokensButBreak_trans)
qed

lemma sameStatementsButComment_tokens:
  assumes "sameStatementsButComment ss ss'"
  shows "map tokens ss' = map tokens ss"
proof -
  have "map tokens ss' = map (tokens \<circ> (\<lambda>s. s\<lparr>trailingComment := None\<rparr>)) ss'"
    by (simp add: comp_def)
  also have "\<dots> = map tokens (map (\<lambda>s. s\<lparr>trailingComment := None\<rparr>) ss')" by simp
  also have "\<dots> = map tokens (map (\<lambda>s. s\<lparr>trailingComment := None\<rparr>) ss)"
    using assms by (simp add: sameStatementsButComment_def)
  also have "\<dots> = map tokens ss" by (simp add: comp_def)
  finally show ?thesis .
qed

lemma sameStatementsButComment_chain:
  assumes "sameStatementsButComment ss ss'"
  shows "map chain ss' = map chain ss"
proof -
  have "map chain ss' = map chain (map (\<lambda>s. s\<lparr>trailingComment := None\<rparr>) ss')"
    by (simp add: comp_def)
  also have "\<dots> = map chain (map (\<lambda>s. s\<lparr>trailingComment := None\<rparr>) ss)"
    using assms by (simp add: sameStatementsButComment_def)
  also have "\<dots> = map chain ss" by (simp add: comp_def)
  finally show ?thesis .
qed

lemma allTokenTexts_alt:
  "allTokenTexts h ss = concat (map (tokenTextsOf h) (map tokens ss))"
  by (simp add: allTokenTexts_def comp_def)

lemma allTokenTexts_frame:
  assumes "sameTokensButBreak h h'" "sameStatementsButComment ss ss'"
  shows "allTokenTexts h' ss' = allTokenTexts h ss"
proof -
  have "tokenTextsOf h' = tokenTextsOf h"
    using sameTokensButBreak_text [OF assms(1)] by (simp add: tokenTextsOf_def fun_eq_iff)
  then show ?thesis
    by (simp only: allTokenTexts_alt sameStatementsButComment_tokens [OF assms(2)])
qed

lemma applyClosingBracketsPosition_frame:
  "sameTokensButBreak (store st) (store (applyClosingBracketsPosition st)) \<and>
   sameStatementsButComment (stmts st) (stmts (applyClosingBracketsPosition st))"
proof (cases "length (stmts st) = 0")
  case True
  then show ?thesis
    by (simp add: applyClosingBracketsPosition_def sameTokensButBreak_refl
        sameStatementsButComment_refl)
next
  case False
  obtain t1 st1 where r: "foldl applyClosingBrackets_step ({}, st) [0..<length (stmts st)] = (t1, st1)"
    by (cases "foldl applyClosingBrackets_step ({}, st) [0..<length (stmts st)]")
  have a: "sameTokensButBreak (store st) (store st1)" and b: "stmts st1 = stmts st"
    using apply_foldl_frame [of st "{}" "[0..<length (stmts st)]"] r by auto
  have res: "applyClosingBracketsPosition st = mergeTrailingComments t1 st1"
    using False r by (simp add: applyClosingBracketsPosition_def Let_def)
  from merge_foldl_frame [of st1 t1 "[0..<length (stmts st1) - 1]"]
  have "sameTokensButBreak (store st1) (store (mergeTrailingComments t1 st1))"
    and "sameStatementsButComment (stmts st1) (stmts (mergeTrailingComments t1 st1))"
    by (auto simp: mergeTrailingComments_def)
  with a b res show ?thesis
    by (auto intro: sameTokensButBreak_trans)
qed

text \<open>
  C8. For every statement list and every store, bracket repositioning keeps the order and
  the content of the tokens: the concatenation of all token texts, white space ignored, is
  the same before and after \<open>applyClosingBracketsPosition\<close>. The pass changes nothing of a
  token but its break flag and nothing of a statement but its trailing comment (and the
  table of post comments); the token arrays and the chains of the statements are the same.
\<close>

theorem applyClosingBracketsPosition_preserves_tokens:
  "allTokenTexts (store (applyClosingBracketsPosition st)) (stmts (applyClosingBracketsPosition st))
     = allTokenTexts (store st) (stmts st) \<and>
   sameTokensButBreak (store st) (store (applyClosingBracketsPosition st)) \<and>
   sameStatementsButComment (stmts st) (stmts (applyClosingBracketsPosition st)) \<and>
   map tokens (stmts (applyClosingBracketsPosition st)) = map tokens (stmts st) \<and>
   map chain (stmts (applyClosingBracketsPosition st)) = map chain (stmts st)"
  using applyClosingBracketsPosition_frame [of st]
  by (auto intro: allTokenTexts_frame sameStatementsButComment_tokens sameStatementsButComment_chain)

subsection \<open>The comment-merge pass\<close>

lemmas cex_defs = mkComment_def mkStatement_def callStore_def callState_def mkLoc_def mkToken_def


lemmas rule_defs = simplify_def PERIOD_TEXT_def CLOSING_TOKENS_def COMMENT_SIGN_def
  startsWith_def trim_def trimStart_def trimEnd_def isWhitespace_def

lemma forcePeriodLine_loop_last:
  assumes "k \<le> n" "1 \<le> k" "simplify (tokText (h (toks ! k))) = PERIOD_TEXT"
    and "\<forall>j. k < j \<and> j \<le> n \<longrightarrow> simplify (tokText (h (toks ! j))) \<noteq> PERIOD_TEXT"
  shows "forcePeriodLine_loop h toks n = setBreak h (toks ! (k - 1)) True"
  using assms
proof (induction n)
  case 0
  then show ?case by simp
next
  case (Suc n)
  show ?case
  proof (cases "k = Suc n")
    case True
    with Suc.prems show ?thesis by simp
  next
    case False
    with Suc.prems have "k \<le> n" by simp
    moreover have "simplify (tokText (h (toks ! Suc n))) \<noteq> PERIOD_TEXT"
      using Suc.prems False by auto
    ultimately show ?thesis using Suc by simp
  qed
qed

lemma forcePeriodLine_loop_none:
  "\<forall>j. 1 \<le> j \<and> j \<le> n \<longrightarrow> simplify (tokText (h (toks ! j))) \<noteq> PERIOD_TEXT \<Longrightarrow>
   forcePeriodLine_loop h toks n = h"
  by (induction n) auto

text \<open>
  C5 (amended). In the comment-merge pass, take an adjacent pair (current, next) where
  current was touched by bracket repositioning and the inline trailing comment of next
  starts on the last line of current and begins with the comment sign. A comment counts as
  a pseudo-comment when its text after the sign, and after any white space that follows the
  sign, begins with \<^verbatim>\<open>#\<close>. If either comment is a pseudo-comment, the comments are
  not merged: the comment of next is stored as the post comment of current, the period line
  is forced for current, and the trailing comment of next is cleared. Otherwise the texts
  are joined as \<^verbatim>\<open>a; b\<close> behind the sign and a space and assigned as the trailing
  comment of current (the text of next alone when current has no trailing comment), and
  the trailing comment of next is cleared. Forcing the period line sets the break flag of
  the token before the last period of current.
\<close>

theorem mergeTrailingComments_step_cases:
  fixes st :: RuleState and i :: nat
  assumes "i \<in> touched"
    and "trailingComment (stmts st ! (i + 1)) = Some nextComment"
    and "inline nextComment"
    and "startLine (cloc nextComment) = endLine (sloc (stmts st ! i))"
    and "startsWith (trimStart (cvalue nextComment)) COMMENT_SIGN"
  defines "current \<equiv> stmts st ! i"
  defines "nxt \<equiv> stmts st ! (i + 1)"
  defines "afterSign \<equiv> (\<lambda>c. trimStart (drop 1 (trimStart (cvalue c))))"
  defines "pseudo \<equiv> (\<lambda>c. startsWith (trimStart (cvalue c)) COMMENT_SIGN \<and> startsWith (afterSign c) ''#'')"
  shows
    "(pseudo nextComment \<or> (\<exists>c. trailingComment current = Some c \<and> pseudo c) \<longrightarrow>
        mergeTrailingComments_step touched st i =
          st\<lparr>postComments := (postComments st)(i \<mapsto> nextComment),
             store := forcePeriodLine (store st) (tokens current),
             stmts := (stmts st)[i + 1 := nxt\<lparr>trailingComment := None\<rparr>]\<rparr>) \<and>
     (\<not> pseudo nextComment \<longrightarrow>
        (\<forall>c. trailingComment current = Some c \<and> \<not> pseudo c
               \<and> startsWith (trimStart (cvalue c)) COMMENT_SIGN \<longrightarrow>
           mergeTrailingComments_step touched st i =
             st\<lparr>stmts := (stmts st)
                 [i := current\<lparr>trailingComment :=
                         Some (c\<lparr>cvalue := COMMENT_SIGN @ '' '' @ trim (afterSign c) @ ''; ''
                                      @ trim (afterSign nextComment)\<rparr>)\<rparr>,
                  i + 1 := nxt\<lparr>trailingComment := None\<rparr>]\<rparr>) \<and>
        (trailingComment current = None \<longrightarrow>
           mergeTrailingComments_step touched st i =
             st\<lparr>stmts := (stmts st)
                 [i := current\<lparr>trailingComment :=
                         Some (nextComment\<lparr>cvalue := COMMENT_SIGN @ '' ''
                                      @ trim (afterSign nextComment)\<rparr>)\<rparr>,
                  i + 1 := nxt\<lparr>trailingComment := None\<rparr>]\<rparr>)) \<and>
     (\<forall>k. 1 \<le> k \<and> k < length (tokens current)
           \<and> simplify (tokText (store st (tokens current ! k))) = PERIOD_TEXT
           \<and> (\<forall>j. k < j \<and> j < length (tokens current)
                  \<longrightarrow> simplify (tokText (store st (tokens current ! j))) \<noteq> PERIOD_TEXT)
         \<longrightarrow> forcePeriodLine (store st) (tokens current)
               = setBreak (store st) (tokens current ! (k - 1)) True)"
proof (intro conjI impI allI)
  assume p: "pseudo nextComment \<or> (\<exists>c. trailingComment current = Some c \<and> pseudo c)"
  then show "mergeTrailingComments_step touched st i =
          st\<lparr>postComments := (postComments st)(i \<mapsto> nextComment),
             store := forcePeriodLine (store st) (tokens current),
             stmts := (stmts st)[i + 1 := nxt\<lparr>trailingComment := None\<rparr>]\<rparr>"
    using assms(1-5)
    by (auto simp: mergeTrailingComments_step_def extractCommentParts_def Let_def pseudo_def
        afterSign_def current_def nxt_def split: option.splits)
next
  fix c
  assume "\<not> pseudo nextComment"
    and "trailingComment current = Some c \<and> \<not> pseudo c \<and> startsWith (trimStart (cvalue c)) COMMENT_SIGN"
  then show "mergeTrailingComments_step touched st i =
             st\<lparr>stmts := (stmts st)
                 [i := current\<lparr>trailingComment :=
                         Some (c\<lparr>cvalue := COMMENT_SIGN @ '' '' @ trim (afterSign c) @ ''; ''
                                      @ trim (afterSign nextComment)\<rparr>)\<rparr>,
                  i + 1 := nxt\<lparr>trailingComment := None\<rparr>]\<rparr>"
    using assms(1-5)
    by (auto simp: mergeTrailingComments_step_def extractCommentParts_def Let_def pseudo_def
        afterSign_def current_def nxt_def split: option.splits)
next
  assume "\<not> pseudo nextComment" and "trailingComment current = None"
  then show "mergeTrailingComments_step touched st i =
             st\<lparr>stmts := (stmts st)
                 [i := current\<lparr>trailingComment :=
                         Some (nextComment\<lparr>cvalue := COMMENT_SIGN @ '' ''
                                      @ trim (afterSign nextComment)\<rparr>)\<rparr>,
                  i + 1 := nxt\<lparr>trailingComment := None\<rparr>]\<rparr>"
    using assms(1-5)
    by (auto simp: mergeTrailingComments_step_def extractCommentParts_def Let_def pseudo_def
        afterSign_def current_def nxt_def split: option.splits)
next
  fix k
  assume a: "1 \<le> k \<and> k < length (tokens current)
           \<and> simplify (tokText (store st (tokens current ! k))) = PERIOD_TEXT
           \<and> (\<forall>j. k < j \<and> j < length (tokens current)
                  \<longrightarrow> simplify (tokText (store st (tokens current ! j))) \<noteq> PERIOD_TEXT)"
  then have "forcePeriodLine_loop (store st) (tokens current) (length (tokens current) - 1)
               = setBreak (store st) (tokens current ! (k - 1)) True"
    by (intro forcePeriodLine_loop_last) auto
  with a show "forcePeriodLine (store st) (tokens current)
               = setBreak (store st) (tokens current ! (k - 1)) True"
    by (simp add: forcePeriodLine_def)
qed

theorem mergeTrailingComments_step_cases_witness:
  "mergeTrailingComments_step {0} (callState ''\" first'' ''\" second'') 0 =
     (callState ''\" first'' ''\" second'')
       \<lparr>stmts := [mkStatement ''Call'' [0, 1, 2, 3, 4] 1 2
                     (Some ((mkComment ''\" first'' 1 7)\<lparr>cvalue := ''\" first; second''\<rparr>)),
                  mkStatement ''Call'' [5, 6] 3 3 None]\<rparr> \<and>
   mergeTrailingComments_step {0} (callState ''\"#EC NEEDED'' ''\" second'') 0 =
     (callState ''\"#EC NEEDED'' ''\" second'')
       \<lparr>postComments := [0 \<mapsto> mkComment ''\" second'' 2 3],
        store := setBreak callStore 3 True,
        stmts := [mkStatement ''Call'' [0, 1, 2, 3, 4] 1 2 (Some (mkComment ''\"#EC NEEDED'' 1 7)),
                  mkStatement ''Call'' [5, 6] 3 3 None]\<rparr>"
proof -
  let ?a = "callState ''\" first'' ''\" second''"
  let ?b = "callState ''\"#EC NEEDED'' ''\" second''"
  let ?n = "mkComment ''\" second'' 2 3"
  have h1: "0 \<in> {0::nat}" by simp
  have a2: "trailingComment (stmts ?a ! (0 + 1)) = Some ?n" by (simp add: cex_defs)
  have b2: "trailingComment (stmts ?b ! (0 + 1)) = Some ?n" by (simp add: cex_defs)
  have h3: "inline ?n" by (simp add: cex_defs)
  have a4: "startLine (cloc ?n) = endLine (sloc (stmts ?a ! 0))" by (simp add: cex_defs)
  have b4: "startLine (cloc ?n) = endLine (sloc (stmts ?b ! 0))" by (simp add: cex_defs)
  have h5: "startsWith (trimStart (cvalue ?n)) COMMENT_SIGN" by (simp add: cex_defs rule_defs)
  have fp: "forcePeriodLine callStore [0, 1, 2, 3, 4] = setBreak callStore 3 True"
    by (simp add: forcePeriodLine_def cex_defs rule_defs numeral_eq_Suc)
  from mergeTrailingComments_step_cases [OF h1 a2 h3 a4 h5]
  have A: "mergeTrailingComments_step {0} ?a 0 =
     ?a\<lparr>stmts := [mkStatement ''Call'' [0, 1, 2, 3, 4] 1 2
                     (Some ((mkComment ''\" first'' 1 7)\<lparr>cvalue := ''\" first; second''\<rparr>)),
                  mkStatement ''Call'' [5, 6] 3 3 None]\<rparr>"
    by (simp add: cex_defs rule_defs)
  from mergeTrailingComments_step_cases [OF h1 b2 h3 b4 h5]
  have B: "mergeTrailingComments_step {0} ?b 0 =
     ?b\<lparr>postComments := [0 \<mapsto> ?n],
        store := forcePeriodLine callStore [0, 1, 2, 3, 4],
        stmts := [mkStatement ''Call'' [0, 1, 2, 3, 4] 1 2 (Some (mkComment ''\"#EC NEEDED'' 1 7)),
                  mkStatement ''Call'' [5, 6] 3 3 None]\<rparr>"
    by (simp add: callState_def mkStatement_def mkComment_def rule_defs)
  from A B fp show ?thesis by simp
qed

text \<open>
  With \<^verbatim>\<open>" first\<close> on the call and \<^verbatim>\<open>" #second\<close> behind its closing bracket,
  neither comment begins with \<^verbatim>\<open>#\<close> right after the sign, yet the comments are not
  merged: the second one becomes the post comment of the call.
\<close>

theorem pseudo_after_space_counterexample:
  "\<not> spec_isPseudoComment (mkComment ''\" first'' 1 7) \<and>
   \<not> spec_isPseudoComment (mkComment ''\" #second'' 2 3) \<and>
   trailingComment (stmts (applyClosingBracketsPosition (callState ''\" first'' ''\" #second'')) ! 0)
     = Some (mkComment ''\" first'' 1 7) \<and>
   postComments (applyClosingBracketsPosition (callState ''\" first'' ''\" #second'')) 0
     = Some (mkComment ''\" #second'' 2 3)"
  by (simp add: spec_isPseudoComment_def cex_defs rule_defs applyClosingBracketsPosition_def
      applyClosingBrackets_step_def adjustClosingBracketsInTokens_def
      adjustClosingBrackets_step_def shouldAttach_def shouldKeepTogether_def setBreak_def
      mergeTrailingComments_def mergeTrailingComments_step_def extractCommentParts_def
      forcePeriodLine_def Let_def upt_rec)

subsection \<open>Indentation depth after block openers\<close>

lemma spec_matchingCloser_closedBy:
  "spec_matchingCloser statements i j \<longleftrightarrow> closedBy statements i j \<and> j < length statements"
  by (auto simp: spec_matchingCloser_def closedBy_def openAt_def)

lemma selectBalance_same [simp]: "selectBalance statements a a = 0"
  by (simp add: selectBalance_def)

lemma selectBalance_Suc:
  "a \<le> b \<Longrightarrow> selectBalance statements a (Suc b)
     = selectBalance statements a b + selectDelta (statements ! b)"
  by (simp add: selectBalance_def)

lemma openAt_Suc:
  "openAt statements (Suc n) i \<longleftrightarrow>
     (i = n \<and> isSelectStatement (statements ! n)) \<or>
     (openAt statements n i
      \<and> 0 \<le> selectBalance statements (Suc i) n + selectDelta (statements ! n))"
proof (cases "i = n")
  case True
  have "\<And>m. n < m \<and> m \<le> Suc n \<Longrightarrow> m = Suc n" by simp
  then have "\<And>m. n < m \<and> m \<le> Suc n \<Longrightarrow> 0 \<le> selectBalance statements (Suc n) m"
    by (metis selectBalance_same order_refl)
  then have "(\<forall>m\<in>{n<..Suc n}. 0 \<le> selectBalance statements (Suc n) m)"
    by simp
  with True show ?thesis by (simp add: openAt_def)
next
  case False
  show ?thesis
  proof (cases "i < n")
    case lt: True
    then have b: "selectBalance statements (Suc i) (Suc n)
              = selectBalance statements (Suc i) n + selectDelta (statements ! n)"
      by (intro selectBalance_Suc) simp
    have "(\<forall>m\<in>{i<..Suc n}. 0 \<le> selectBalance statements (Suc i) m) \<longleftrightarrow>
          (\<forall>m\<in>{i<..n}. 0 \<le> selectBalance statements (Suc i) m)
           \<and> 0 \<le> selectBalance statements (Suc i) (Suc n)"
      using lt by (auto simp: le_Suc_eq)
    with lt False b show ?thesis by (simp add: openAt_def)
  next
    case False
    with \<open>i \<noteq> n\<close> show ?thesis by (simp add: openAt_def)
  qed
qed

lemma openAt_balance: "openAt statements n i \<Longrightarrow> 0 \<le> selectBalance statements (Suc i) n"
  by (simp add: openAt_def)

lemma selectDelta_cases:
  "isSelectStatement x \<Longrightarrow> selectDelta x = 1"
  "\<not> isSelectStatement x \<Longrightarrow> nodeType x = Stmt_EndSelect \<Longrightarrow> selectDelta x = - 1"
  "\<not> isSelectStatement x \<Longrightarrow> nodeType x \<noteq> Stmt_EndSelect \<Longrightarrow> selectDelta x = 0"
  by (simp_all add: selectDelta_def)

lemma select_not_end: "isSelectStatement x \<Longrightarrow> nodeType x \<noteq> Stmt_EndSelect"
  by (auto simp: isSelectStatement_def)

lemma selectInv_step:
  assumes inv: "selectInv statements n acc"
  shows "selectInv statements (Suc n) (findSelectBlocks_step statements acc n)"
proof -
  obtain res stack where acc: "acc = (res, stack)" by (cases acc)
  from inv acc have a: "\<And>i. i \<in> set stack \<longleftrightarrow> openAt statements n i"
    and b: "\<And>k. k < length stack \<Longrightarrow> selectBalance statements (Suc (stack ! k)) n = int k"
    and c: "res = {i. \<exists>j<n. closedBy statements i j}"
    by (auto simp: selectInv_def)
  have lt: "\<And>k. k < length stack \<Longrightarrow> stack ! k < n"
    using a by (auto simp: openAt_def dest: nth_mem)
  have closedBy_n: "\<And>i. closedBy statements i n \<longleftrightarrow>
      nodeType (statements ! n) = Stmt_EndSelect \<and> (\<exists>k<length stack. stack ! k = i \<and> k = 0)"
  proof -
    fix i
    show "closedBy statements i n \<longleftrightarrow>
      nodeType (statements ! n) = Stmt_EndSelect \<and> (\<exists>k<length stack. stack ! k = i \<and> k = 0)"
    proof
      assume cl: "closedBy statements i n"
      then have "i \<in> set stack" using a by (simp add: closedBy_def)
      then obtain k where k: "k < length stack" "stack ! k = i" by (auto simp: in_set_conv_nth)
      with b [of k] cl have "k = 0" by (simp add: closedBy_def)
      with k cl show "nodeType (statements ! n) = Stmt_EndSelect
          \<and> (\<exists>k<length stack. stack ! k = i \<and> k = 0)"
        by (auto simp: closedBy_def)
    next
      assume r: "nodeType (statements ! n) = Stmt_EndSelect
          \<and> (\<exists>k<length stack. stack ! k = i \<and> k = 0)"
      then have i: "0 < length stack" "stack ! 0 = i" by auto
      then have "i \<in> set stack" by (auto simp: in_set_conv_nth)
      then have "openAt statements n i" using a by simp
      moreover have "selectBalance statements (Suc i) n = 0" using b [of 0] i by simp
      ultimately show "closedBy statements i n" using r by (simp add: closedBy_def)
    qed
  qed
  have res_Suc: "{i. \<exists>j<Suc n. closedBy statements i j} = res \<union> {i. closedBy statements i n}"
    unfolding c by (auto simp: less_Suc_eq)
  show ?thesis
  proof (cases "isSelectStatement (statements ! n)")
    case sel: True
    have st: "findSelectBlocks_step statements acc n = (res, n # stack)"
      using sel acc by (simp add: findSelectBlocks_step_def Let_def)
    have d: "selectDelta (statements ! n) = 1" using sel by (rule selectDelta_cases)
    have a': "\<And>i. i \<in> set (n # stack) \<longleftrightarrow> openAt statements (Suc n) i"
      using sel d a openAt_balance [of statements n] by (auto simp: openAt_Suc)
    have b': "\<And>k. k < length (n # stack) \<Longrightarrow>
        selectBalance statements (Suc ((n # stack) ! k)) (Suc n) = int k"
    proof -
      fix k assume "k < length (n # stack)"
      then show "selectBalance statements (Suc ((n # stack) ! k)) (Suc n) = int k"
      proof (cases k)
        case 0
        then show ?thesis by simp
      next
        case (Suc k')
        with \<open>k < length (n # stack)\<close> have k': "k' < length stack" by simp
        from lt [OF k'] have "Suc (stack ! k') \<le> n" by simp
        from selectBalance_Suc [OF this, of statements] b [OF k'] d Suc
        show ?thesis by simp
      qed
    qed
    have c': "res = {i. \<exists>j<Suc n. closedBy statements i j}"
      unfolding res_Suc using sel select_not_end [OF sel] by (auto simp: closedBy_def)
    show ?thesis unfolding st selectInv_def using a' b' c' by simp
  next
    case nsel: False
    show ?thesis
    proof (cases "nodeType (statements ! n) = Stmt_EndSelect")
      case other: False
      have st: "findSelectBlocks_step statements acc n = (res, stack)"
        using nsel other acc by (simp add: findSelectBlocks_step_def Let_def)
      have d: "selectDelta (statements ! n) = 0" using nsel other by (rule selectDelta_cases)
      have a': "\<And>i. i \<in> set stack \<longleftrightarrow> openAt statements (Suc n) i"
        using nsel d a openAt_balance [of statements n] by (auto simp: openAt_Suc)
      have b': "\<And>k. k < length stack \<Longrightarrow>
          selectBalance statements (Suc (stack ! k)) (Suc n) = int k"
      proof -
        fix k assume k: "k < length stack"
        from lt [OF k] have "Suc (stack ! k) \<le> n" by simp
        from selectBalance_Suc [OF this, of statements] b [OF k] d show
          "selectBalance statements (Suc (stack ! k)) (Suc n) = int k" by simp
      qed
      have c': "res = {i. \<exists>j<Suc n. closedBy statements i j}"
        unfolding res_Suc using other by (auto simp: closedBy_def)
      show ?thesis unfolding st selectInv_def using a' b' c' by simp
    next
      case endsel: True
      have d: "selectDelta (statements ! n) = - 1" using nsel endsel by (rule selectDelta_cases)
      show ?thesis
      proof (cases stack)
        case Nil
        have st: "findSelectBlocks_step statements acc n = (res, [])"
          using nsel endsel acc Nil by (simp add: findSelectBlocks_step_def Let_def)
        have a': "\<And>i. i \<in> set [] \<longleftrightarrow> openAt statements (Suc n) i"
          using nsel a Nil by (auto simp: openAt_Suc)
        have c': "res = {i. \<exists>j<Suc n. closedBy statements i j}"
          unfolding res_Suc using closedBy_n Nil by auto
        show ?thesis unfolding st selectInv_def using a' c' by simp
      next
        case (Cons top rest)
        have st: "findSelectBlocks_step statements acc n = (insert top res, rest)"
          using nsel endsel acc Cons by (simp add: findSelectBlocks_step_def Let_def)
        have b_rest: "\<And>k. k < length rest \<Longrightarrow>
            selectBalance statements (Suc (rest ! k)) n = int (Suc k)"
          using b [of "Suc k" for k] Cons by auto
        have b_top: "selectBalance statements (Suc top) n = 0"
          using b [of 0] Cons by simp
        have a': "\<And>i. i \<in> set rest \<longleftrightarrow> openAt statements (Suc n) i"
        proof -
          fix i
          show "i \<in> set rest \<longleftrightarrow> openAt statements (Suc n) i"
          proof
            assume "i \<in> set rest"
            then obtain k where k: "k < length rest" "rest ! k = i"
              by (auto simp: in_set_conv_nth)
            have "i \<in> set stack" using \<open>i \<in> set rest\<close> Cons by simp
            then have "openAt statements n i" using a [of i] by blast
            moreover have "0 \<le> selectBalance statements (Suc i) n + selectDelta (statements ! n)"
              using b_rest [OF k(1)] k(2) d by simp
            ultimately show "openAt statements (Suc n) i" by (simp add: openAt_Suc)
          next
            assume o: "openAt statements (Suc n) i"
            then have on: "openAt statements n i"
              and ge: "0 \<le> selectBalance statements (Suc i) n + selectDelta (statements ! n)"
              using nsel by (auto simp: openAt_Suc)
            from on have "i \<in> set stack" using a by simp
            moreover have "i \<noteq> top" using ge d b_top by auto
            ultimately show "i \<in> set rest" using Cons by simp
          qed
        qed
        have b': "\<And>k. k < length rest \<Longrightarrow>
            selectBalance statements (Suc (rest ! k)) (Suc n) = int k"
        proof -
          fix k assume k: "k < length rest"
          have "rest ! k < n" using lt [of "Suc k"] k Cons by simp
          then have "Suc (rest ! k) \<le> n" by simp
          from selectBalance_Suc [OF this, of statements] b_rest [OF k] d show
            "selectBalance statements (Suc (rest ! k)) (Suc n) = int k" by simp
        qed
        have "{i. closedBy statements i n} = {top}"
          using closedBy_n endsel Cons by auto
        then have c': "insert top res = {i. \<exists>j<Suc n. closedBy statements i j}"
          unfolding res_Suc by auto
        show ?thesis unfolding st selectInv_def using a' b' c' by simp
      qed
    qed
  qed
qed

lemma selectInv_foldl:
  "selectInv statements n (foldl (findSelectBlocks_step statements) ({}, []) [0..<n])"
proof (induction n)
  case 0
  show ?case by (simp add: selectInv_def openAt_def)
next
  case (Suc n)
  from selectInv_step [OF Suc] show ?case by simp
qed

lemma findSelectBlocks_matching:
  "i \<in> findSelectBlocks statements \<longleftrightarrow> (\<exists>j. spec_matchingCloser statements i j)"
  using selectInv_foldl [of statements "length statements"]
  unfolding selectInv_def findSelectBlocks_def spec_matchingCloser_closedBy by auto


lemma loop_append:
  "computeIndentationLevels_loop statements sb s (xs @ ys) =
     (case computeIndentationLevels_loop statements sb s xs of
        Inl e \<Rightarrow> Inl e
      | Inr s1 \<Rightarrow> computeIndentationLevels_loop statements sb s1 ys)"
  by (induction xs arbitrary: s) (auto split: sum.splits)

lemma indentStateBefore_0: "indentStateBefore statements 0 = Inr initialIndentState"
  by (simp add: indentStateBefore_def)

lemma indentStateBefore_Suc:
  assumes "k < length statements"
  shows "indentStateBefore statements (Suc k) =
     (case indentStateBefore statements k of
        Inl e \<Rightarrow> Inl e
      | Inr s \<Rightarrow> computeIndentationLevels_step statements (findSelectBlocks statements) s
                   (statements ! k))"
  using assms
  by (simp add: indentStateBefore_def take_Suc_conv_app_nth loop_append split: sum.splits)

lemma indentStateBefore_all:
  "computeIndentationLevels statements =
     (case indentStateBefore statements (length statements) of
        Inl e \<Rightarrow> Inl e | Inr s \<Rightarrow> Inr (levels s))"
  by (simp add: computeIndentationLevels_def indentStateBefore_def)

lemma step_levels_length:
  "computeIndentationLevels_step statements sb s x = Inr s'
     \<Longrightarrow> length (levels s') = Suc (length (levels s))"
  by (auto simp: computeIndentationLevels_step_def Let_def
           split: option.splits sum.splits if_splits)

lemma cursor_comments:
  "c \<le> j \<Longrightarrow> j < findAlignmentTarget_cursor statements c
     \<Longrightarrow> isStandaloneComment (statements ! j)"
proof (induction statements c rule: findAlignmentTarget_cursor.induct)
  case (1 statements cursor)
  let ?go = "cursor < length statements
         \<and> isStandaloneComment (statements ! cursor)
         \<and> \<not> hasBlankLineAbove (statements ! cursor) (at statements (int cursor - 1))"
  show ?case
  proof (cases ?go)
    case True
    then have eq: "findAlignmentTarget_cursor statements cursor
        = findAlignmentTarget_cursor statements (cursor + 1)"
      by (subst findAlignmentTarget_cursor.simps) simp
    show ?thesis
    proof (cases "j = cursor")
      case True
      with \<open>?go\<close> show ?thesis by simp
    next
      case False
      with "1.prems" have "cursor + 1 \<le> j" by simp
      moreover from "1.prems" eq have "j < findAlignmentTarget_cursor statements (cursor + 1)"
        by simp
      ultimately show ?thesis using "1.IH" True by blast
    qed
  next
    case False
    then have "findAlignmentTarget_cursor statements cursor = cursor"
      by (subst findAlignmentTarget_cursor.simps) auto
    with "1.prems" show ?thesis by simp
  qed
qed

lemma findAlignmentTarget_comments:
  assumes "findAlignmentTarget statements k d = Some a" "k < j" "j < targetIndex a"
  shows "isStandaloneComment (statements ! j)"
proof -
  from assms(1) have "targetIndex a = findAlignmentTarget_cursor statements (k + 1)"
    by (auto simp: findAlignmentTarget_def Let_def split: if_splits)
  with assms(2,3) cursor_comments [of "k + 1" j statements] show ?thesis by simp
qed

lemma alignInv_initial: "alignInv statements initialIndentState"
  by (simp add: alignInv_def initialIndentState_def)

lemma step_virtual:
  "getFirstToken x = Inr firstToken \<Longrightarrow> startIsVirtual firstToken \<Longrightarrow>
   computeIndentationLevels_step statements sb s x
     = Inr ((clearAlignment s)\<lparr>levels := levels (clearAlignment s) @ [KEEP_EXISTING_INDENT]\<rparr>)"
  by (simp add: computeIndentationLevels_step_def Let_def clearAlignment_def)

lemma step_positioned:
  "getFirstToken x = Inr firstToken \<Longrightarrow> \<not> startIsVirtual firstToken \<Longrightarrow>
   computeIndentationLevels_step statements sb s x
     = (let s1 = clearAlignment s;
            d = depthBefore (depth s1) x;
            alignment = (if activeAlignDepth s1 = None \<and> isStandaloneComment x
                         then findAlignmentTarget statements (length (levels s)) d else None);
            s2 = (case alignment of
                    Some a \<Rightarrow> s1\<lparr>activeAlignTarget := Some (targetIndex a),
                                  activeAlignDepth := Some (alignDepth a)\<rparr>
                  | None \<Rightarrow> s1)
        in Inr (s2\<lparr>levels := levels s2 @ [case activeAlignDepth s2 of Some a \<Rightarrow> a | None \<Rightarrow> d],
                   depth := (if shouldIndentAfter sb (length (levels s)) x
                             then d + 1 else d)\<rparr>))"
  by (simp add: computeIndentationLevels_step_def Let_def clearAlignment_def)

lemma clearAlignment_fields [simp]:
  "levels (clearAlignment s) = levels s" "depth (clearAlignment s) = depth s"
  by (simp_all add: clearAlignment_def split: option.splits)

lemma alignInv_clear: "alignInv statements s \<Longrightarrow> alignInv statements (clearAlignment s)"
  by (auto simp: clearAlignment_def alignInv_def split: option.splits)

lemma alignInv_step:
  assumes inv: "alignInv statements s"
    and st: "computeIndentationLevels_step statements sb s x = Inr s'"
  shows "alignInv statements s'"
proof -
  define s1 where "s1 = clearAlignment s"
  have l1: "levels s1 = levels s" by (simp add: s1_def)
  have inv1: "alignInv statements s1" unfolding s1_def using inv by (rule alignInv_clear)
  obtain firstToken where ft: "getFirstToken x = Inr firstToken"
    using st by (auto simp: computeIndentationLevels_step_def Let_def split: sum.splits)
  show ?thesis
  proof (cases "startIsVirtual firstToken")
    case True
    from st have "Inr s' = computeIndentationLevels_step statements sb s x" by simp
    also have "\<dots> = Inr (s1\<lparr>levels := levels s1 @ [KEEP_EXISTING_INDENT]\<rparr>)"
      unfolding s1_def using ft True by (rule step_virtual)
    finally have "s' = s1\<lparr>levels := levels s1 @ [KEEP_EXISTING_INDENT]\<rparr>" by simp
    with inv1 show ?thesis by (auto simp: alignInv_def)
  next
    case False
    define d where "d = depthBefore (depth s1) x"
    define alignment where "alignment = (if activeAlignDepth s1 = None \<and> isStandaloneComment x
                         then findAlignmentTarget statements (length (levels s)) d else None)"
    define s2 where "s2 = (case alignment of
                           Some a \<Rightarrow> s1\<lparr>activeAlignTarget := Some (targetIndex a),
                                         activeAlignDepth := Some (alignDepth a)\<rparr>
                         | None \<Rightarrow> s1)"
    from st have "Inr s' = computeIndentationLevels_step statements sb s x" by simp
    also have "\<dots> = Inr (s2\<lparr>levels := levels s2 @ [case activeAlignDepth s2 of Some a \<Rightarrow> a | None \<Rightarrow> d],
                          depth := (if shouldIndentAfter sb (length (levels s)) x
                                    then d + 1 else d)\<rparr>)"
      unfolding step_positioned [OF ft False] Let_def s2_def alignment_def d_def s1_def
      by (rule refl)
    finally have s': "s' = s2\<lparr>levels := levels s2 @ [case activeAlignDepth s2 of Some a \<Rightarrow> a | None \<Rightarrow> d],
                          depth := (if shouldIndentAfter sb (length (levels s)) x
                                    then d + 1 else d)\<rparr>" by simp
    have l2: "levels s2 = levels s" using l1 by (simp add: s2_def split: option.splits)
    have inv2: "(activeAlignDepth s2 = None \<longleftrightarrow> activeAlignTarget s2 = None) \<and>
      (\<forall>t. activeAlignTarget s2 = Some t \<longrightarrow>
         (\<forall>j. Suc (length (levels s)) \<le> j \<and> j < t \<longrightarrow> isStandaloneComment (statements ! j)))"
    proof (cases alignment)
      case None
      then have "s2 = s1" by (simp add: s2_def)
      with inv1 l1 show ?thesis by (auto simp: alignInv_def)
    next
      case (Some a)
      then have fa: "findAlignmentTarget statements (length (levels s)) d = Some a"
        by (auto simp: alignment_def split: if_splits)
      have "s2 = s1\<lparr>activeAlignTarget := Some (targetIndex a),
                     activeAlignDepth := Some (alignDepth a)\<rparr>"
        using Some by (simp add: s2_def)
      then show ?thesis
        using findAlignmentTarget_comments [OF fa] by auto
    qed
    then show ?thesis unfolding s' alignInv_def using l2 by simp
  qed
qed

lemma indentStateBefore_inv:
  "k \<le> length statements \<Longrightarrow> indentStateBefore statements k = Inr s
     \<Longrightarrow> length (levels s) = k \<and> alignInv statements s"
proof (induction k arbitrary: s)
  case 0
  then have s: "s = initialIndentState" by (simp add: indentStateBefore_0)
  have "levels initialIndentState = []" by (simp add: initialIndentState_def)
  then show ?case unfolding s using alignInv_initial by simp
next
  case (Suc k)
  then have k: "k < length statements" by simp
  from Suc.prems(2) obtain s0 where s0: "indentStateBefore statements k = Inr s0"
    and st: "computeIndentationLevels_step statements (findSelectBlocks statements) s0
               (statements ! k) = Inr s"
    by (auto simp: indentStateBefore_Suc [OF k] split: sum.splits)
  from Suc.IH [OF _ s0] k have "length (levels s0) = k" "alignInv statements s0" by simp_all
  with step_levels_length [OF st] alignInv_step [OF _ st] show ?case by simp
qed

text \<open>The round of the loop for a statement that has a position and is not a comment.\<close>

lemma step_regular:
  assumes inv: "alignInv statements s"
    and x: "x = statements ! length (levels s)"
    and pos: "positioned x"
    and nc: "\<not> isStandaloneComment x"
  shows "computeIndentationLevels_step statements sb s x =
     Inr \<lparr>levels = levels s @ [depthBefore (depth s) x],
          depth = depthBefore (depth s) x
             + (if shouldIndentAfter sb (length (levels s)) x then 1 else 0),
          activeAlignDepth = None, activeAlignTarget = None\<rparr>"
proof -
  have none: "activeAlignDepth (clearAlignment s) = None"
  proof (cases "activeAlignTarget s")
    case None
    with inv show ?thesis by (simp add: clearAlignment_def alignInv_def)
  next
    case (Some t)
    have "\<not> length (levels s) < t"
    proof
      assume "length (levels s) < t"
      with inv Some have "isStandaloneComment (statements ! length (levels s))"
        by (auto simp: alignInv_def)
      with nc x show False by simp
    qed
    with Some show ?thesis by (simp add: clearAlignment_def)
  qed
  with alignInv_clear [OF inv] have none': "activeAlignTarget (clearAlignment s) = None"
    by (simp add: alignInv_def)
  obtain firstToken where ft: "getFirstToken x = Inr firstToken" "\<not> startIsVirtual firstToken"
    using pos by (auto simp: positioned_def split: sum.splits)
  have eq: "\<And>r l d. activeAlignDepth r = None \<Longrightarrow> activeAlignTarget r = None \<Longrightarrow>
      r\<lparr>levels := l, depth := d\<rparr>
        = \<lparr>levels = l, depth = d, activeAlignDepth = None, activeAlignTarget = None\<rparr>"
    by simp
  show ?thesis
    unfolding step_positioned [OF ft] using nc none eq [OF none none'] by (simp add: Let_def)
qed

lemma INDENT_AFTER_not_comment:
  "matches (nodeType x) INDENT_AFTER \<Longrightarrow> \<not> isStandaloneComment x"
  by (auto simp: matches_def INDENT_AFTER_def isStandaloneComment_def)


lemma step_appends:
  "computeIndentationLevels_step statements sb s x = Inr s'
     \<Longrightarrow> \<exists>v. levels s' = levels s @ [v]"
  by (auto simp: computeIndentationLevels_step_def Let_def clearAlignment_def
           split: option.splits sum.splits if_splits)

lemma levels_prefix:
  "k \<le> m \<Longrightarrow> m \<le> length statements \<Longrightarrow> indentStateBefore statements m = Inr s2
     \<Longrightarrow> \<exists>s. indentStateBefore statements k = Inr s \<and> take k (levels s2) = levels s"
proof (induction m arbitrary: s2)
  case 0
  with indentStateBefore_inv [of 0 statements s2] show ?case by simp
next
  case (Suc m)
  show ?case
  proof (cases "k = Suc m")
    case True
    with Suc.prems indentStateBefore_inv [of "Suc m" statements s2] show ?thesis by simp
  next
    case False
    with Suc.prems have km: "k \<le> m" and m: "m < length statements" by simp_all
    from Suc.prems(3) obtain s0 where s0: "indentStateBefore statements m = Inr s0"
      and st: "computeIndentationLevels_step statements (findSelectBlocks statements) s0
                 (statements ! m) = Inr s2"
      by (auto simp: indentStateBefore_Suc [OF m] split: sum.splits)
    from Suc.IH [OF km _ s0] m obtain s where s: "indentStateBefore statements k = Inr s"
      "take k (levels s0) = levels s" by auto
    from indentStateBefore_inv [OF _ s0] m have "length (levels s0) = m" by simp
    with step_appends [OF st] km s(2) have "take k (levels s2) = levels s" by auto
    with s(1) show ?thesis by simp
  qed
qed

lemma loop_total:
  "\<forall>x\<in>set xs. nodeTokens x \<noteq> [] \<Longrightarrow>
     \<exists>s'. computeIndentationLevels_loop statements sb s xs = Inr s'"
proof (induction xs arbitrary: s)
  case Nil
  show ?case by simp
next
  case (Cons x xs)
  then obtain t where t: "getFirstToken x = Inr t"
    by (cases "nodeTokens x") (auto simp: getFirstToken_def)
  have "\<exists>s1. computeIndentationLevels_step statements sb s x = Inr s1"
    by (cases "startIsVirtual t") (simp_all add: step_virtual [OF t] step_positioned [OF t] Let_def)
  then obtain s1 where "computeIndentationLevels_step statements sb s x = Inr s1" ..
  with Cons.IH [of s1] Cons.prems show ?case by simp
qed

text \<open>
  The function returns a level for every statement when every statement has a token.
\<close>

lemma computeIndentationLevels_total:
  assumes "\<forall>x\<in>set statements. nodeTokens x \<noteq> []"
  shows "\<exists>lv. computeIndentationLevels statements = Inr lv \<and> length lv = length statements"
proof -
  from loop_total [OF assms, of statements "findSelectBlocks statements" initialIndentState]
  obtain s where
    s: "indentStateBefore statements (length statements) = Inr s"
    unfolding indentStateBefore_def by auto
  from indentStateBefore_inv [OF _ s] s show ?thesis
    by (simp add: indentStateBefore_all)
qed

text \<open>
  C7. In \<^verbatim>\<open>computeIndentationLevels\<close>, let the loop come to the statement \<open>k\<close> in the
  state \<open>s\<close>, and let this statement have a position (one without a position gets the
  sentinel level before its kind is looked at) and be of a kind of \<^verbatim>\<open>INDENT_AFTER\<close>.
  Then the level pushed for it is the depth after the dedent of a block terminator or
  middle keyword (it is the level number \<open>k\<close> of the result, which
  has a level for every statement), and only then the depth goes up by one:
  the next round starts with the depth one above the pushed level. The exception is a
  \<^verbatim>\<open>SELECT\<close> (\<open>Select\<close> or \<open>SelectLoop\<close>) without a matching \<^verbatim>\<open>ENDSELECT\<close> later in the
  list: after it the depth is the pushed level. The matching is that of the set
  \<^verbatim>\<open>findSelectBlocks\<close>, which the function computes once, before the loop, in one pass
  with a stack over all the statements: the statement is in the set exactly when an end
  of select after it is its matching closer.
\<close>

theorem indent_after_level_then_depth:
  assumes "k < length statements"
    and "indentStateBefore statements k = Inr s"
    and "positioned (statements ! k)"
    and "matches (nodeType (statements ! k)) INDENT_AFTER"
  shows "length (levels s) = k
     \<and> indentStateBefore statements (Suc k) =
         Inr \<lparr>levels = levels s @ [depthBefore (depth s) (statements ! k)],
              depth = depthBefore (depth s) (statements ! k)
                 + (if isSelectStatement (statements ! k)
                       \<and> \<not> (\<exists>j. spec_matchingCloser statements k j) then 0 else 1),
              activeAlignDepth = None, activeAlignTarget = None\<rparr>
     \<and> (k \<in> findSelectBlocks statements \<longleftrightarrow> (\<exists>j. spec_matchingCloser statements k j))
     \<and> (\<forall>lv. computeIndentationLevels statements = Inr lv
           \<longrightarrow> length lv = length statements
               \<and> lv ! k = depthBefore (depth s) (statements ! k))"
proof -
  let ?x = "statements ! k"
  let ?d = "depthBefore (depth s) ?x"
  from indentStateBefore_inv [OF _ assms(2)] assms(1)
  have len: "length (levels s) = k" and inv: "alignInv statements s" by simp_all
  have nc: "\<not> isStandaloneComment ?x" using assms(4) by (rule INDENT_AFTER_not_comment)
  have m: "k \<in> findSelectBlocks statements \<longleftrightarrow> (\<exists>j. spec_matchingCloser statements k j)"
    by (rule findSelectBlocks_matching)
  have inc: "shouldIndentAfter (findSelectBlocks statements) k ?x
      \<longleftrightarrow> \<not> (isSelectStatement ?x \<and> \<not> (\<exists>j. spec_matchingCloser statements k j))"
    using assms(4) m by (simp add: shouldIndentAfter_def)
  have "computeIndentationLevels_step statements (findSelectBlocks statements) s ?x =
     Inr \<lparr>levels = levels s @ [?d],
          depth = ?d + (if shouldIndentAfter (findSelectBlocks statements) (length (levels s)) ?x
                        then 1 else 0),
          activeAlignDepth = None, activeAlignTarget = None\<rparr>"
    using inv _ assms(3) nc by (rule step_regular) (simp add: len)
  then have nxt: "indentStateBefore statements (Suc k) =
         Inr \<lparr>levels = levels s @ [?d],
              depth = ?d + (if isSelectStatement ?x
                       \<and> \<not> (\<exists>j. spec_matchingCloser statements k j) then 0 else 1),
              activeAlignDepth = None, activeAlignTarget = None\<rparr>"
    using inc by (simp add: indentStateBefore_Suc [OF assms(1)] assms(2) len)
  have fin: "\<forall>lv. computeIndentationLevels statements = Inr lv
           \<longrightarrow> length lv = length statements \<and> lv ! k = ?d"
  proof (intro allI impI)
    fix lv assume "computeIndentationLevels statements = Inr lv"
    then obtain s2 where s2: "indentStateBefore statements (length statements) = Inr s2"
      and lv: "lv = levels s2"
      by (auto simp: indentStateBefore_all split: sum.splits)
    from assms(1) have "Suc k \<le> length statements" by simp
    from levels_prefix [OF this _ s2] nxt
    have "take (Suc k) lv = levels s @ [?d]" by (simp add: lv)
    then have "take (Suc k) lv ! k = ?d" using len by (simp add: nth_append)
    moreover from indentStateBefore_inv [OF _ s2] lv have "length lv = length statements"
      by simp
    ultimately show "length lv = length statements \<and> lv ! k = ?d" by simp
  qed
  from len nxt m fin show ?thesis by blast
qed

lemmas indent_defs =
  computeIndentationLevels_def computeIndentationLevels_step_def indentStateBefore_def
  initialIndentState_def findSelectBlocks_def findSelectBlocks_step_def
  shouldIndentAfter_def depthBefore_def matches_def INDENT_AFTER_def DEDENT_BEFORE_def
  MIDDLE_KEYWORDS_def isSelectStatement_def isStandaloneComment_def getFirstToken_def
  positioned_def KEEP_EXISTING_INDENT_def mkNode_def findAlignmentTarget_def
  hasBlankLineAbove_def

theorem indent_after_level_then_depth_witness:
  "1 < length selectBlockExample
   \<and> indentStateBefore selectBlockExample 1
       = Inr \<lparr>levels = [0], depth = 1, activeAlignDepth = None, activeAlignTarget = None\<rparr>
   \<and> positioned (selectBlockExample ! 1)
   \<and> matches (nodeType (selectBlockExample ! 1)) INDENT_AFTER
   \<and> spec_matchingCloser selectBlockExample 1 3
   \<and> indentStateBefore selectBlockExample 2
       = Inr \<lparr>levels = [0, 1], depth = 2, activeAlignDepth = None, activeAlignTarget = None\<rparr>
   \<and> 1 \<in> findSelectBlocks selectBlockExample
   \<and> computeIndentationLevels selectBlockExample = Inr [0, 1, 2, 1, 1, 0, - 1]"
proof -
  have l: "1 < length selectBlockExample" by (simp add: selectBlockExample_def)
  have b: "indentStateBefore selectBlockExample 1
       = Inr \<lparr>levels = [0], depth = 1, activeAlignDepth = None, activeAlignTarget = None\<rparr>"
    by (simp add: selectBlockExample_def indent_defs Let_def upt_rec)
  have p: "positioned (selectBlockExample ! 1)"
    by (simp add: selectBlockExample_def indent_defs)
  have i: "matches (nodeType (selectBlockExample ! 1)) INDENT_AFTER"
    by (simp add: selectBlockExample_def indent_defs)
  have c: "spec_matchingCloser selectBlockExample 1 3"
    by (simp add: spec_matchingCloser_def selectBalance_def selectDelta_def
          selectBlockExample_def indent_defs upt_rec greaterThanAtMost_upt)
  then have e: "\<exists>j. spec_matchingCloser selectBlockExample 1 j" ..
  have d: "depthBefore 1 (selectBlockExample ! 1) = 1"
    by (simp add: selectBlockExample_def indent_defs)
  have r: "computeIndentationLevels selectBlockExample = Inr [0, 1, 2, 1, 1, 0, - 1]"
    by (simp add: selectBlockExample_def indent_defs Let_def upt_rec)
  from indent_after_level_then_depth [OF l b p i] e d
  have "indentStateBefore selectBlockExample (Suc 1)
       = Inr \<lparr>levels = [0, 1], depth = 2, activeAlignDepth = None, activeAlignTarget = None\<rparr>"
    and "1 \<in> findSelectBlocks selectBlockExample"
    by simp_all
  with l b p i c r show ?thesis by (simp add: numeral_2_eq_2)
qed

subsection \<open>The fallback program\<close>

lemma trimStart_no_leading:
  "trimStart s \<noteq> [] \<Longrightarrow> \<not> isWhitespace (hd (trimStart s))"
  unfolding trimStart_def by (rule hd_dropWhile)

lemma trimEnd_no_trailing:
  "trimEnd s \<noteq> [] \<Longrightarrow> \<not> isWhitespace (last (trimEnd s))"
  unfolding trimEnd_def by (simp add: last_rev hd_dropWhile)

lemma trimEnd_keeps_head:
  assumes "s \<noteq> []" "\<not> isWhitespace (hd s)"
  shows "trimEnd s \<noteq> [] \<and> hd (trimEnd s) = hd s"
proof -
  obtain c cs where s: "s = c # cs" using assms(1) by (cases s) auto
  have "dropWhile isWhitespace (rev cs @ [c]) = dropWhile isWhitespace (rev cs) @ [c]"
    using assms(2) s by (simp add: dropWhile_append3)
  then show ?thesis by (simp add: trimEnd_def s)
qed

lemma trim_ends:
  assumes "trim s \<noteq> []"
  shows "\<not> isWhitespace (hd (trim s))" and "\<not> isWhitespace (last (trim s))"
proof -
  have ne: "trimStart s \<noteq> []" using assms by (auto simp: trim_def trimEnd_def)
  from trimEnd_keeps_head [OF ne trimStart_no_leading [OF ne]]
  show "\<not> isWhitespace (hd (trim s))"
    using trimStart_no_leading [OF ne] by (simp add: trim_def)
  show "\<not> isWhitespace (last (trim s))"
    using assms trimEnd_no_trailing [of "trimStart s"] by (simp add: trim_def)
qed

lemma trimStart_id: "s \<noteq> [] \<Longrightarrow> \<not> isWhitespace (hd s) \<Longrightarrow> trimStart s = s"
  by (cases s) (auto simp: trimStart_def)

lemma trimEnd_id: "s \<noteq> [] \<Longrightarrow> \<not> isWhitespace (last s) \<Longrightarrow> trimEnd s = s"
  by (cases s rule: rev_cases) (auto simp: trimEnd_def)

lemma trim_id:
  "s \<noteq> [] \<Longrightarrow> \<not> isWhitespace (hd s) \<Longrightarrow> \<not> isWhitespace (last s) \<Longrightarrow> trim s = s"
  by (simp add: trim_def trimStart_id trimEnd_id)

lemma merge_single: "mergeLeadingPunctuation hp (Suc 0) ([x], m) = ([x], m)"
  by (subst mergeLeadingPunctuation.simps) simp

text \<open>The statement of a fallback line whose token is rendered as a trimmed text.\<close>

lemma printStatement_fallback:
  assumes tok: "h index = fallbackToken host offs line index"
    and ne: "trim line \<noteq> []"
    and r: "renderToken host K (h index) opts = out"
    and t: "out \<noteq> []" "trim out = out" "trimEnd out = out"
  shows "printStatement host active K h None (fallbackStatement offs line index) opts = [out]"
proof -
  have b: "hasFollowingLineBreak (h index) = False" "startColumn (loc (h index)) = 0"
    by (simp_all add: tok fallbackToken_def fallbackLoc_def Let_def)
  have tk: "printStatement_token host active K h (fallbackStatement offs line index) opts []
              \<lparr>psLines = [], psLineMetas = [], psCurrentLine = [],
               psPrevious = None, psAtLineStart = True,
               psCurrentLineStartLine = None, psCurrentLineEndLine = None\<rparr> index
            = \<lparr>psLines = [], psLineMetas = [], psCurrentLine = out,
               psPrevious = Some index, psAtLineStart = False,
               psCurrentLineStartLine = Some (startLine (loc (h index))),
               psCurrentLineEndLine = Some (startLine (loc (h index)))\<rparr>"
    using t(1) by (simp add: printStatement_token_def r b Let_def fallbackStatement_def
        fallbackLoc_def)
  show ?thesis
    using ne t
    by (simp add: printStatement_def Let_def tk merge_single fallbackStatement_def [of offs line index, THEN arg_cong [where f = tokens]]
        fallbackStatement_def [of offs line index, THEN arg_cong [where f = trailingComment]]
        fallbackStatement_def [of offs line index, THEN arg_cong [where f = indentLevel]])
qed

lemma printStatement_fallback_blank:
  "trim line = [] \<Longrightarrow>
   printStatement host active K h None (fallbackStatement offs line index) opts = []"
  by (simp add: printStatement_def fallbackStatement_def)

lemma buildFallbackAst_statement:
  assumes "index < length (splitLines t)"
  shows "body (buildFallbackAst host t f hsh offs) ! index
           = fallbackStatement offs (splitLines t ! index) index"
    and "programStore (buildFallbackAst host t f hsh offs) index
           = fallbackToken host offs (splitLines t ! index) index"
    and "length (body (buildFallbackAst host t f hsh offs)) = length (splitLines t)"
  using assms by (simp_all add: buildFallbackAst_def Let_def)

text \<open>
  A line of the fallback program that is blank gives no output line, and a line whose
  trimmed text in upper case is not a keyword is rendered as its trimmed text.
\<close>

lemma fallback_line_rendering:
  assumes i: "index < length (splitLines t)"
    and nk: "toUpperCase host (trim (splitLines t ! index)) \<notin> K"
  shows "printStatement host active K (programStore (buildFallbackAst host t f hsh offs)) None
           (body (buildFallbackAst host t f hsh offs) ! index) opts
         = (if trim (splitLines t ! index) = [] then [] else [trim (splitLines t ! index)])"
proof (cases "trim (splitLines t ! index) = []")
  case True
  then show ?thesis
    by (simp add: buildFallbackAst_statement(1) [OF i] printStatement_fallback_blank)
next
  case False
  let ?line = "splitLines t ! index"
  let ?h = "programStore (buildFallbackAst host t f hsh offs)"
  have tok: "?h index = fallbackToken host offs ?line index"
    by (rule buildFallbackAst_statement(2) [OF i])
  have r: "renderToken host K (?h index) opts = trim ?line"
    using nk by (simp add: tok renderToken_def applyKeywordCase_def fallbackToken_def Let_def)
  note e = trim_ends [OF False]
  have "trim (trim ?line) = trim ?line" using False e by (rule trim_id)
  moreover have "trimEnd (trim ?line) = trim ?line" using False e(2) by (rule trimEnd_id)
  ultimately show ?thesis
    using printStatement_fallback [where h = "?h" and index = index and host = host
        and offs = offs and line = "?line" and K = K and opts = opts and out = "trim ?line"
        and active = active, OF tok False r False] False
    by (simp add: buildFallbackAst_statement(1) [OF i])
qed

lemma ddl_lines:
  "splitLines (normalizeNewlines ddlSource) = [''  from t'', ''  where'', ''  a = 1'']"
  by (simp add: ddlSource_def LF_def CR_def)

text \<open>
  C6. When the tokenizer fails, \<open>parseAbap\<close> returns the fallback program, one statement
  per line. Its statements are rendered as the trimmed lines, as specified, except
  where the whole trimmed line is a keyword: the token of a fallback line has the role of
  a word, and the renderer puts a keyword into the configured case. Here the line
  \<^verbatim>\<open>where\<close> comes out as \<^verbatim>\<open>WHERE\<close>, under every host whose \<^verbatim>\<open>toUpperCase\<close> maps
  \<^verbatim>\<open>where\<close> to \<^verbatim>\<open>WHERE\<close>.
\<close>

theorem fallback_keyword_line_recased:
  "splitLines (normalizeNewlines ddlSource) ! 1 = ''  where'' \<and>
   (\<forall>host active. toUpperCase host ''where'' = ''WHERE'' \<longrightarrow>
      printStatement host active {''WHERE''} (programStore (ddlProgram host)) None
        (body (ddlProgram host) ! 1) defaultOptions = [''WHERE''])"
proof (intro conjI allI impI)
  show "splitLines (normalizeNewlines ddlSource) ! 1 = ''  where''" by (simp add: ddl_lines)
next
  fix host :: HostStrings and active :: "NeedlessSpacesOverrides option"
  assume up: "toUpperCase host ''where'' = ''WHERE''"
  let ?t = "normalizeNewlines ddlSource"
  let ?p = "buildFallbackAst host ?t ''view.ddlsrc'' [] (buildLineOffsets ?t)"
  have p: "ddlProgram host = ?p" by (simp add: ddlProgram_def parseAbap_def Let_def)
  have i: "1 < length (splitLines ?t)" by (simp add: ddl_lines)
  have l: "splitLines ?t ! 1 = ''  where''" by (simp add: ddl_lines)
  have tr: "trim ''  where'' = ''where''" by (simp add: str_defs)
  have tok: "programStore ?p 1 = fallbackToken host (buildLineOffsets ?t) ''  where'' 1"
    using buildFallbackAst_statement(2) [OF i, of host "''view.ddlsrc''" "[]" "buildLineOffsets ?t"]
    by (simp add: ddl_lines)
  have r: "renderToken host {''WHERE''} (programStore ?p 1) defaultOptions = ''WHERE''"
    unfolding tok
    by (simp add: renderToken_def applyKeywordCase_def fallbackToken_def Let_def tr up
        defaultOptions_def)
  have ne: "trim ''  where'' \<noteq> []" by (simp add: tr)
  have t: "''WHERE'' \<noteq> []" "trim ''WHERE'' = ''WHERE''" "trimEnd ''WHERE'' = ''WHERE''"
    by (simp_all add: str_defs)
  have bd: "body ?p ! 1
      = fallbackStatement (buildLineOffsets ?t) (splitLines ?t ! 1) 1"
    by (rule buildFallbackAst_statement(1) [OF i])
  note printStatement_fallback [where h = "programStore ?p" and index = 1 and host = host
      and offs = "buildLineOffsets ?t" and line = "''  where''" and K = "{''WHERE''}"
      and opts = defaultOptions and out = "''WHERE''" and active = active, OF tok ne r t]
  then show "printStatement host active {''WHERE''} (programStore (ddlProgram host)) None
        (body (ddlProgram host) ! 1) defaultOptions = [''WHERE'']"
    unfolding p bd l .
qed

theorem fallback_keyword_line_recased_witness:
  "toUpperCase asciiHost ''where'' = ''WHERE'' \<and>
   printStatement asciiHost None {''WHERE''} (programStore (ddlProgram asciiHost)) None
     (body (ddlProgram asciiHost) ! 1) defaultOptions = [''WHERE'']"
proof -
  have up: "toUpperCase asciiHost ''where'' = ''WHERE''" by code_simp
  from fallback_keyword_line_recased up
  have "printStatement asciiHost None {''WHERE''} (programStore (ddlProgram asciiHost)) None
     (body (ddlProgram asciiHost) ! 1) defaultOptions = [''WHERE'']"
    by blast
  with up show ?thesis by simp
qed

end
